theory Spec2Isabelle
  imports Main "HOL-Library.Char_ord" "HOL-Library.List_Lexorder" "HOL-Library.Product_Lexorder"
begin

section \<open>Tables, cells and Python's conversions\<close>

text \<open>
  A pandas DataFrame is modelled as its ordered list of column labels and its list of rows;
  a row maps a column label to the cell it holds. A cell is missing (NaN), an integer or a
  string. Numeric cells hold integral values: the identifiers and dates of this data set.
  pandas stores an integer column that contains NaN as floats; that representation, and
  the way floats are printed, is outside this model.
\<close>

datatype cell = Null | IntV int | StrV string

type_synonym row = "string \<rightharpoonup> cell"

record table =
  columns :: "string list"
  rows :: "row list"

datatype error = KeyError string | ValueError | TypeError | MergeError

definition cell_at :: "row \<Rightarrow> string \<Rightarrow> cell" where
  "cell_at r c = (case r c of Some v \<Rightarrow> v | None \<Rightarrow> Null)"

text \<open>Python's \<open>str\<close> of an integer: decimal digits, a leading minus sign when negative.\<close>

definition digit_char :: "nat \<Rightarrow> char" where
  "digit_char d = ''0123456789'' ! d"

fun digits_of :: "nat \<Rightarrow> string" where
  "digits_of n = (if n < 10 then [digit_char n] else digits_of (n div 10) @ [digit_char (n mod 10)])"

declare digits_of.simps [simp del]

definition str_int :: "int \<Rightarrow> string" where
  "str_int i = (if i < 0 then CHR ''-'' # digits_of (nat (- i)) else digits_of (nat i))"

text \<open>
  Python's \<open>int\<close> of a cell value. On a string it parses; the parser is the parameter
  \<open>pi\<close> (None where Python raises ValueError). On NaN it raises ValueError.
\<close>

fun py_int :: "(string \<Rightarrow> int option) \<Rightarrow> cell \<Rightarrow> error + int" where
  "py_int pi Null = Inl ValueError"
| "py_int pi (IntV i) = Inr i"
| "py_int pi (StrV s) = (case pi s of None \<Rightarrow> Inl ValueError | Some i \<Rightarrow> Inr i)"

text \<open>Python's \<open>str\<close> of a cell value, as an f-string and \<open>astype(str)\<close> print it.\<close>

fun py_str :: "cell \<Rightarrow> string" where
  "py_str Null = ''nan''"
| "py_str (IntV i) = str_int i"
| "py_str (StrV s) = s"

text \<open>A loop over a list that stops at the first exception.\<close>

fun map_err :: "('a \<Rightarrow> error + 'b) \<Rightarrow> 'a list \<Rightarrow> error + 'b list" where
  "map_err f [] = Inr []"
| "map_err f (x # xs) =
     (case f x of Inl e \<Rightarrow> Inl e
      | Inr y \<Rightarrow> (case map_err f xs of Inl e \<Rightarrow> Inl e | Inr ys \<Rightarrow> Inr (y # ys)))"

section \<open>The pandas operations the scripts use\<close>

text \<open>\<open>df.drop(columns=c, inplace=True)\<close> for a label that is present.\<close>

definition drop_column :: "string \<Rightarrow> table \<Rightarrow> table" where
  "drop_column c t =
     \<lparr>columns = removeAll c (columns t), rows = map (\<lambda>r. r(c := None)) (rows t)\<rparr>"

text \<open>\<open>df.drop(columns=cs, inplace=True)\<close>: KeyError when a label is absent.\<close>

definition drop_columns :: "string list \<Rightarrow> table \<Rightarrow> error + table" where
  "drop_columns cs t =
     (case filter (\<lambda>c. c \<notin> set (columns t)) cs of
        [] \<Rightarrow> Inr (fold drop_column cs t)
      | c # _ \<Rightarrow> Inl (KeyError c))"

text \<open>\<open>df[c] = df[c].astype(str)\<close>: KeyError when the column is absent.\<close>

definition astype_str :: "string \<Rightarrow> table \<Rightarrow> error + table" where
  "astype_str c t =
     (if c \<notin> set (columns t) then Inl (KeyError c)
      else Inr (t\<lparr>rows := map (\<lambda>r. r(c \<mapsto> StrV (py_str (cell_at r c)))) (rows t)\<rparr>))"

text \<open>\<open>df[c] = df[c].astype(int)\<close>: KeyError when the column is absent, ValueError at the
  first cell that does not convert.\<close>

definition astype_int :: "(string \<Rightarrow> int option) \<Rightarrow> string \<Rightarrow> table \<Rightarrow> error + table" where
  "astype_int pi c t =
     (if c \<notin> set (columns t) then Inl (KeyError c)
      else (case map_err (\<lambda>r. py_int pi (cell_at r c)) (rows t) of
              Inl e \<Rightarrow> Inl e
            | Inr vs \<Rightarrow> Inr (t\<lparr>rows := map2 (\<lambda>r v. r(c \<mapsto> IntV v)) (rows t) vs\<rparr>)))"

text \<open>\<open>df[cs]\<close> with a list of labels: KeyError when a label is absent.\<close>

definition select_columns :: "string list \<Rightarrow> table \<Rightarrow> error + table" where
  "select_columns cs t =
     (case filter (\<lambda>c. c \<notin> set (columns t)) cs of
        [] \<Rightarrow> Inr \<lparr>columns = cs, rows = map (\<lambda>r. r |` set cs) (rows t)\<rparr>
      | c # _ \<Rightarrow> Inl (KeyError c))"

text \<open>
  \<open>pd.merge(l, r, left_on=lk, right_on=rk, how='left')\<close>. A label that occurs on both
  sides gets the suffix \<open>_x\<close> on the left and \<open>_y\<close> on the right; the merge is refused
  when that yields a duplicate label. The result follows the left rows in their order;
  a left row with no partner is kept once, with NaN in the right columns, and a left row
  with several partners is repeated, once for each, in the order of the right table.
\<close>

definition suffixed :: "string list \<Rightarrow> string \<Rightarrow> string \<Rightarrow> string" where
  "suffixed ov sfx c = (if c \<in> set ov then c @ sfx else c)"

definition rename_row :: "string list \<Rightarrow> (string \<Rightarrow> string) \<Rightarrow> row \<Rightarrow> row" where
  "rename_row cs f r = map_of (map (\<lambda>c. (f c, cell_at r c)) cs)"

definition null_row :: "string list \<Rightarrow> row" where
  "null_row cs = map_of (map (\<lambda>c. (c, Null)) cs)"

definition join_key :: "string list \<Rightarrow> row \<Rightarrow> cell list" where
  "join_key ks r = map (cell_at r) ks"

definition merge_row :: "table \<Rightarrow> table \<Rightarrow> string list \<Rightarrow> string list \<Rightarrow> row \<Rightarrow> row list" where
  "merge_row l r lk rk a =
     (let ov = filter (\<lambda>c. c \<in> set (columns r)) (columns l);
          a' = rename_row (columns l) (suffixed ov ''_x'') a;
          ms = filter (\<lambda>b. join_key rk b = join_key lk a) (rows r)
      in if ms = [] then [a' ++ null_row (map (suffixed ov ''_y'') (columns r))]
         else map (\<lambda>b. a' ++ rename_row (columns r) (suffixed ov ''_y'') b) ms)"

definition pd_merge_left :: "table \<Rightarrow> table \<Rightarrow> string list \<Rightarrow> string list \<Rightarrow> error + table" where
  "pd_merge_left l r lk rk =
     (let ov = filter (\<lambda>c. c \<in> set (columns r)) (columns l);
          out_cols = map (suffixed ov ''_x'') (columns l) @ map (suffixed ov ''_y'') (columns r)
      in if \<not> distinct out_cols then Inl MergeError
         else Inr \<lparr>columns = out_cols, rows = concat (map (merge_row l r lk rk) (rows l))\<rparr>)"

text \<open>
  \<open>df.apply(f, axis=1)\<close>: \<open>f\<close> on each row in order, stopping at the first exception.
  On a frame without rows pandas returns a frame, not a column, and the assignment of that
  frame to one column raises ValueError.
\<close>

definition apply_rows :: "(row \<Rightarrow> error + cell) \<Rightarrow> table \<Rightarrow> error + cell list" where
  "apply_rows f t = (if rows t = [] then Inl ValueError else map_err f (rows t))"

text \<open>\<open>df[c] = values\<close>: an existing column keeps its place, a new one goes last.\<close>

definition assign_column :: "string \<Rightarrow> cell list \<Rightarrow> table \<Rightarrow> table" where
  "assign_column c vs t =
     \<lparr>columns = (if c \<in> set (columns t) then columns t else columns t @ [c]),
      rows = map2 (\<lambda>r v. r(c \<mapsto> v)) (rows t) vs\<rparr>"

section \<open>shot\_collect.py: the enrichment join\<close>

definition generate_video_url :: "(string \<Rightarrow> int option) \<Rightarrow> row \<Rightarrow> error + cell" where
  "generate_video_url pi r =
     (case r ''uuid'' of None \<Rightarrow> Inl (KeyError ''uuid'')
      | Some u \<Rightarrow>
        if u = Null \<or> u = StrV ''NO_VIDEO'' then Inr Null
        else (case r ''year'' of None \<Rightarrow> Inl (KeyError ''year'') | Some cy \<Rightarrow>
             (case py_int pi cy of Inl e \<Rightarrow> Inl e | Inr y \<Rightarrow>
             (case r ''month'' of None \<Rightarrow> Inl (KeyError ''month'') | Some cm \<Rightarrow>
             (case py_int pi cm of Inl e \<Rightarrow> Inl e | Inr m \<Rightarrow>
             (case r ''day'' of None \<Rightarrow> Inl (KeyError ''day'') | Some cd \<Rightarrow>
             (case py_int pi cd of Inl e \<Rightarrow> Inl e | Inr d \<Rightarrow>
             (case r ''api_game_id'' of None \<Rightarrow> Inl (KeyError ''api_game_id'') | Some g \<Rightarrow>
             (case r ''GAME_EVENT_ID'' of None \<Rightarrow> Inl (KeyError ''GAME_EVENT_ID'') | Some ce \<Rightarrow>
             (case py_int pi ce of Inl e \<Rightarrow> Inl e | Inr ev \<Rightarrow>
                Inr (StrV (''https://videos.nba.com/nba/pbp/media/'' @ str_int y @ ''/''
                     @ str_int m @ ''/'' @ str_int d @ ''/'' @ py_str g @ ''/''
                     @ str_int ev @ ''/'' @ py_str u @ ''_1280x720.mp4''))))))))))))"

text \<open>
  The function changes the caller's table in place before it merges, so the model returns
  the caller's table as the call leaves it together with the result: the enriched table,
  or the exception that ended the call. The backup table is the parameter \<open>backup_df\<close>
  (the file read at the start); the progress messages are not modelled.
\<close>

definition merge_with_uuid_data ::
    "(string \<Rightarrow> int option) \<Rightarrow> table \<Rightarrow> table \<Rightarrow> table \<times> (error + table)" where
  "merge_with_uuid_data pi shot_data_df backup_df =
     (let s0 = (if ''year'' \<in> set (columns shot_data_df)
                then drop_column ''year'' shot_data_df else shot_data_df)
      in case astype_str ''GAME_ID'' s0 of Inl e \<Rightarrow> (s0, Inl e) | Inr s1 \<Rightarrow>
         (case astype_int pi ''GAME_EVENT_ID'' s1 of Inl e \<Rightarrow> (s1, Inl e) | Inr s2 \<Rightarrow>
         (s2,
          case astype_str ''game_id'' backup_df of Inl e \<Rightarrow> Inl e | Inr b1 \<Rightarrow>
          (case astype_int pi ''action_number'' b1 of Inl e \<Rightarrow> Inl e | Inr b2 \<Rightarrow>
          (case select_columns [''game_id'', ''action_number'', ''year'', ''month'', ''day'',
                                ''api_game_id'', ''uuid''] b2 of Inl e \<Rightarrow> Inl e | Inr b3 \<Rightarrow>
          (case pd_merge_left s2 b3 [''GAME_ID'', ''GAME_EVENT_ID'']
                                   [''game_id'', ''action_number''] of Inl e \<Rightarrow> Inl e | Inr m0 \<Rightarrow>
          (case drop_columns [''game_id'', ''action_number''] m0 of Inl e \<Rightarrow> Inl e | Inr m1 \<Rightarrow>
          (case apply_rows (generate_video_url pi) m1 of Inl e \<Rightarrow> Inl e | Inr urls \<Rightarrow>
             Inr (assign_column ''video_url'' urls m1)))))))))"

section \<open>shot\_collect.py: the partition writer\<close>

text \<open>
  \<open>df.groupby([c1, c2])\<close> on two integer columns, iterated: the groups come in ascending
  order of their key, each with its rows in their original order. pandas leaves out a row
  whose key is NaN; after \<open>astype(int)\<close> no key is.
\<close>

definition group_key :: "string \<Rightarrow> string \<Rightarrow> row \<Rightarrow> (int \<times> int) option" where
  "group_key c1 c2 r =
     (case cell_at r c1 of
        IntV y \<Rightarrow> (case cell_at r c2 of IntV t \<Rightarrow> Some (y, t) | _ \<Rightarrow> None)
      | _ \<Rightarrow> None)"

definition groupby2 :: "string \<Rightarrow> string \<Rightarrow> table \<Rightarrow> ((int \<times> int) \<times> table) list" where
  "groupby2 c1 c2 t =
     map (\<lambda>k. (k, t\<lparr>rows := filter (\<lambda>r. group_key c1 c2 r = Some k) (rows t)\<rparr>))
         (sort (remdups (List.map_filter (group_key c1 c2) (rows t))))"

text \<open>
  The file system: the directories that exist and the CSV files, each file holding the
  table written to it (\<open>to_csv(path, index=False)\<close> is a function of the table alone, so
  equal tables are equal bytes). A path with no entry in \<open>files\<close> cannot be read as CSV.
  Directory creation and file writes succeed: failures of the operating system
  (permissions, a full disk) are outside the model.
\<close>

record filesys =
  dirs :: "string set"
  files :: "string \<rightharpoonup> table"

text \<open>\<open>os.path.join(a, b)\<close> on POSIX.\<close>

definition path_join :: "string \<Rightarrow> string \<Rightarrow> string" where
  "path_join a b =
     (if b \<noteq> [] \<and> hd b = CHR ''/'' then b
      else if a = [] \<or> last a = CHR ''/'' then a @ b
      else a @ ''/'' @ b)"

text \<open>\<open>os.makedirs(p, exist_ok=True)\<close>: the directory and every ancestor named in \<open>p\<close>.\<close>

definition dir_chain :: "string \<Rightarrow> string list" where
  "dir_chain p =
     map (\<lambda>n. take n p)
         (filter (\<lambda>n. n = length p \<or> (n < length p \<and> p ! n = CHR ''/''))
                 [1..<Suc (length p)])"

definition makedirs :: "string \<Rightarrow> filesys \<Rightarrow> filesys" where
  "makedirs p fs = fs\<lparr>dirs := dirs fs \<union> set (dir_chain p)\<rparr>"

text \<open>\<open>df.to_csv(p, index=False)\<close>: the file at \<open>p\<close> is replaced by the table.\<close>

definition to_csv :: "string \<Rightarrow> table \<Rightarrow> filesys \<Rightarrow> filesys" where
  "to_csv p t fs = fs\<lparr>files := (files fs)(p \<mapsto> t)\<rparr>"

text \<open>What the scripts print, one constructor for each message.\<close>

datatype msg =
    SavingInto string
  | ErrorMissingColumns
  | SavedShots nat nat
  | DirNotFound string
  | HintRunCollection
  | NoCsvFound string
  | FoundFiles nat
  | CouldNotRead string
  | NoDataLoaded
  | Combining
  | SavingTo string
  | ProcessComplete
  | TotalShots nat
  | SavedTo string

text \<open>The loop over the groups; an exception ends it and keeps what was written before.\<close>

fun save_groups :: "string \<Rightarrow> ((int \<times> int) \<times> table) list \<Rightarrow> filesys \<Rightarrow> filesys \<times> error option" where
  "save_groups base_output_dir [] fs = (fs, None)"
| "save_groups base_output_dir (((year, team_id), group_df) # gs) fs =
     (let year_dir = path_join base_output_dir (str_int year);
          fs1 = makedirs year_dir fs;
          output_path = path_join year_dir (str_int team_id @ ''.csv'');
          final_columns = [''SHOT_ID'', ''video_url'']
             @ filter (\<lambda>col. col \<notin> set [''SHOT_ID'', ''video_url'']) (columns group_df)
      in case select_columns final_columns group_df of
           Inl e \<Rightarrow> (fs1, Some e)
         | Inr final_group_df \<Rightarrow>
             save_groups base_output_dir gs (to_csv output_path final_group_df fs1))"

text \<open>
  A call leaves the caller's table (changed in place by the two coercions), the file
  system, what was printed, and the exception that ended the call, if one did.
\<close>

record save_result =
  df_after :: table
  fs_after :: filesys
  printed :: "msg list"
  raised :: "error option"

definition save_data_by_year_and_team ::
    "(string \<Rightarrow> int option) \<Rightarrow> table \<Rightarrow> string \<Rightarrow> filesys \<Rightarrow> save_result" where
  "save_data_by_year_and_team pi merged_df base_output_dir fs =
     (if ''year_source'' \<notin> set (columns merged_df) \<or> ''team_id'' \<notin> set (columns merged_df)
      then \<lparr>df_after = merged_df, fs_after = fs,
            printed = [SavingInto base_output_dir, ErrorMissingColumns], raised = None\<rparr>
      else (case astype_int pi ''year_source'' merged_df of
        Inl e \<Rightarrow> \<lparr>df_after = merged_df, fs_after = fs,
                  printed = [SavingInto base_output_dir], raised = Some e\<rparr>
      | Inr m1 \<Rightarrow> (case astype_int pi ''team_id'' m1 of
        Inl e \<Rightarrow> \<lparr>df_after = m1, fs_after = fs,
                  printed = [SavingInto base_output_dir], raised = Some e\<rparr>
      | Inr m2 \<Rightarrow>
          (let grouped = groupby2 ''year_source'' ''team_id'' m2
           in case save_groups base_output_dir grouped fs of
                (fs', Some e) \<Rightarrow> \<lparr>df_after = m2, fs_after = fs',
                                   printed = [SavingInto base_output_dir], raised = Some e\<rparr>
              | (fs', None) \<Rightarrow> \<lparr>df_after = m2, fs_after = fs',
                                 printed = [SavingInto base_output_dir,
                                            SavedShots (length (rows m2)) (length grouped)],
                                 raised = None\<rparr>))))"

section \<open>collect\_data.py: the combiner\<close>

text \<open>The reading loop: a file that cannot be read is reported and skipped.\<close>

fun read_all :: "filesys \<Rightarrow> string list \<Rightarrow> table list \<times> msg list" where
  "read_all fs [] = ([], [])"
| "read_all fs (filename # rest) =
     (case read_all fs rest of (df_list, ms) \<Rightarrow>
        (case files fs filename of
           Some df \<Rightarrow> (df # df_list, ms)
         | None \<Rightarrow> (df_list, CouldNotRead filename # ms)))"

text \<open>
  \<open>pd.concat(dfs, ignore_index=True)\<close>: the rows of the frames one after the other; the
  columns are the union of theirs in order of first appearance, NaN where a frame lacks one.
\<close>

definition pd_concat :: "table list \<Rightarrow> table" where
  "pd_concat dfs =
     (let cs = rev (remdups (rev (concat (map columns dfs))))
      in \<lparr>columns = cs,
          rows = concat (map (\<lambda>df. map (\<lambda>r c. if c \<in> set cs then Some (cell_at r c) else None)
                                       (rows df)) dfs)\<rparr>)"

text \<open>
  \<open>df.sort_values(by=cs, inplace=True)\<close> with several labels: pandas sorts by the codes of
  the key cells with a stable lexicographic sort, NaN after every value. Integers compare
  by value and strings by code point; a key column that holds both integers and strings
  cannot be ordered (TypeError). KeyError when a label is absent.
\<close>

fun sort_code :: "cell \<Rightarrow> nat \<times> int \<times> string" where
  "sort_code (IntV i) = (0, i, [])"
| "sort_code (StrV s) = (1, 0, s)"
| "sort_code Null = (2, 0, [])"

definition sort_key_of :: "string list \<Rightarrow> row \<Rightarrow> (nat \<times> int \<times> string) list" where
  "sort_key_of cs r = map (\<lambda>c. sort_code (cell_at r c)) cs"

definition mixed_column :: "table \<Rightarrow> string \<Rightarrow> bool" where
  "mixed_column t c =
     (list_ex (\<lambda>r. case cell_at r c of IntV _ \<Rightarrow> True | _ \<Rightarrow> False) (rows t) \<and>
      list_ex (\<lambda>r. case cell_at r c of StrV _ \<Rightarrow> True | _ \<Rightarrow> False) (rows t))"

definition sort_values :: "string list \<Rightarrow> table \<Rightarrow> error + table" where
  "sort_values cs t =
     (case filter (\<lambda>c. c \<notin> set (columns t)) cs of
        c # _ \<Rightarrow> Inl (KeyError c)
      | [] \<Rightarrow> if list_ex (mixed_column t) cs then Inl TypeError
              else Inr (t\<lparr>rows := sort_key (sort_key_of cs) (rows t)\<rparr>))"

text \<open>
  \<open>found\<close> is the list that \<open>glob.glob(search_path, recursive=True)\<close> returns, in the order
  the operating system lists the files. A call leaves the file system, what was printed,
  and the exception that ended it, if one did.
\<close>

record combine_result =
  c_fs :: filesys
  c_printed :: "msg list"
  c_raised :: "error option"

definition combine_shot_data :: "string list \<Rightarrow> filesys \<Rightarrow> string \<Rightarrow> string \<Rightarrow> combine_result" where
  "combine_shot_data found fs base_dir output_file =
     (if base_dir \<notin> dirs fs
      then \<lparr>c_fs = fs, c_printed = [DirNotFound base_dir, HintRunCollection], c_raised = None\<rparr>
      else if found = []
      then \<lparr>c_fs = fs, c_printed = [NoCsvFound base_dir], c_raised = None\<rparr>
      else (case read_all fs found of (df_list, ms) \<Rightarrow>
        if df_list = []
        then \<lparr>c_fs = fs, c_printed = FoundFiles (length found) # ms @ [NoDataLoaded],
              c_raised = None\<rparr>
        else (case sort_values [''year'', ''month'', ''day'', ''SHOT_ID''] (pd_concat df_list) of
            Inl e \<Rightarrow> \<lparr>c_fs = fs, c_printed = FoundFiles (length found) # ms @ [Combining],
                      c_raised = Some e\<rparr>
          | Inr combined_df \<Rightarrow>
              \<lparr>c_fs = to_csv output_file combined_df fs,
               c_printed = FoundFiles (length found) # ms
                  @ [Combining, SavingTo output_file, ProcessComplete,
                     TotalShots (length (rows combined_df)), SavedTo output_file],
               c_raised = None\<rparr>)))"

section \<open>Auxiliary notions for the statements\<close>

text \<open>The integer that Python's \<open>int\<close> gives for a cell, where it gives one.\<close>

definition int_value :: "(string \<Rightarrow> int option) \<Rightarrow> cell \<Rightarrow> int" where
  "int_value pi v = (case py_int pi v of Inr i \<Rightarrow> i | Inl e \<Rightarrow> 0)"

text \<open>Reading a decimal numeral back, to show that printing loses nothing.\<close>

definition digit_val :: "char \<Rightarrow> nat" where
  "digit_val c = of_char c - 48"

fun nat_of_digits :: "string \<Rightarrow> nat" where
  "nat_of_digits s = foldl (\<lambda>a c. 10 * a + digit_val c) 0 s"

text \<open>
  The path of the file for a group, the columns of a written file, the table written for a
  group, and the files and directories that a run over a list of groups leaves behind.
\<close>

definition partition_path :: "string \<Rightarrow> int \<times> int \<Rightarrow> string" where
  "partition_path base k =
     path_join (path_join base (str_int (fst k))) (str_int (snd k) @ ''.csv'')"

definition final_columns :: "string list \<Rightarrow> string list" where
  "final_columns cs =
     [''SHOT_ID'', ''video_url''] @ filter (\<lambda>col. col \<notin> set [''SHOT_ID'', ''video_url'']) cs"

definition partition_file :: "table \<Rightarrow> table" where
  "partition_file g =
     \<lparr>columns = final_columns (columns g),
      rows = map (\<lambda>r. r |` set (final_columns (columns g))) (rows g)\<rparr>"

fun written_files :: "string \<Rightarrow> ((int \<times> int) \<times> table) list \<Rightarrow> (string \<rightharpoonup> table)" where
  "written_files base [] = Map.empty"
| "written_files base ((k, g) # gs) =
     [partition_path base k \<mapsto> partition_file g] ++ written_files base gs"

fun created_dirs :: "string \<Rightarrow> ((int \<times> int) \<times> table) list \<Rightarrow> string set" where
  "created_dirs base [] = {}"
| "created_dirs base ((k, g) # gs) =
     set (dir_chain (path_join base (str_int (fst k)))) \<union> created_dirs base gs"

section \<open>Example tables\<close>

text \<open>
  Two shots of game 101, events 5 and 6; the mapping table has the token \<open>abc\<close> for
  event 5 and the sentinel for event 6.
\<close>

definition example_shots :: table where
  "example_shots =
     \<lparr>columns = [''GAME_ID'', ''GAME_EVENT_ID'', ''SHOT_ID'', ''year'', ''year_source'', ''team_id''],
      rows = [[''GAME_ID'' \<mapsto> IntV 101, ''GAME_EVENT_ID'' \<mapsto> IntV 5, ''SHOT_ID'' \<mapsto> IntV 1,
               ''year'' \<mapsto> IntV 2020, ''year_source'' \<mapsto> IntV 2021, ''team_id'' \<mapsto> IntV 7],
              [''GAME_ID'' \<mapsto> IntV 101, ''GAME_EVENT_ID'' \<mapsto> IntV 6, ''SHOT_ID'' \<mapsto> IntV 2,
               ''year'' \<mapsto> IntV 2020, ''year_source'' \<mapsto> IntV 2021, ''team_id'' \<mapsto> IntV 7]]\<rparr>"

definition example_backup :: table where
  "example_backup =
     \<lparr>columns = [''game_id'', ''action_number'', ''year'', ''month'', ''day'', ''api_game_id'', ''uuid''],
      rows = [[''game_id'' \<mapsto> IntV 101, ''action_number'' \<mapsto> IntV 5, ''year'' \<mapsto> IntV 2021,
               ''month'' \<mapsto> IntV 3, ''day'' \<mapsto> IntV 4, ''api_game_id'' \<mapsto> StrV ''9999'',
               ''uuid'' \<mapsto> StrV ''abc''],
              [''game_id'' \<mapsto> IntV 101, ''action_number'' \<mapsto> IntV 6, ''year'' \<mapsto> IntV 2021,
               ''month'' \<mapsto> IntV 3, ''day'' \<mapsto> IntV 4, ''api_game_id'' \<mapsto> StrV ''9999'',
               ''uuid'' \<mapsto> StrV ''NO_VIDEO'']]\<rparr>"

text \<open>A parser that accepts no string, for tables whose cells are already integers.\<close>

definition no_parse :: "string \<Rightarrow> int option" where
  "no_parse s = None"

text \<open>A shot table with no \<open>year\<close> column, string game identifiers and integer events.\<close>

definition coerced_shots :: table where
  "coerced_shots =
     \<lparr>columns = [''GAME_ID'', ''GAME_EVENT_ID'', ''SHOT_ID''],
      rows = [[''GAME_ID'' \<mapsto> StrV ''101'', ''GAME_EVENT_ID'' \<mapsto> IntV 5,
               ''SHOT_ID'' \<mapsto> IntV 1]]\<rparr>"

text \<open>An enriched table with three shots of two teams in one year, and an empty disk.\<close>

definition example_enriched :: table where
  "example_enriched =
     \<lparr>columns = [''GAME_ID'', ''year_source'', ''team_id'', ''SHOT_ID'', ''video_url''],
      rows = [[''GAME_ID'' \<mapsto> StrV ''101'', ''year_source'' \<mapsto> IntV 2021, ''team_id'' \<mapsto> IntV 7,
               ''SHOT_ID'' \<mapsto> IntV 1, ''video_url'' \<mapsto> Null],
              [''GAME_ID'' \<mapsto> StrV ''101'', ''year_source'' \<mapsto> IntV 2021, ''team_id'' \<mapsto> IntV 8,
               ''SHOT_ID'' \<mapsto> IntV 2, ''video_url'' \<mapsto> Null],
              [''GAME_ID'' \<mapsto> StrV ''102'', ''year_source'' \<mapsto> IntV 2021, ''team_id'' \<mapsto> IntV 7,
               ''SHOT_ID'' \<mapsto> IntV 3, ''video_url'' \<mapsto> Null]]\<rparr>"

definition empty_fs :: filesys where
  "empty_fs = \<lparr>dirs = {}, files = Map.empty\<rparr>"

text \<open>
  A disk with the partition files of two teams; one shot has no date (it matched no
  mapping row).
\<close>

definition example_disk :: filesys where
  "example_disk =
     \<lparr>dirs = {''out'', ''out/2021''},
      files = [''out/2021/8.csv'' \<mapsto>
                 \<lparr>columns = [''SHOT_ID'', ''year'', ''month'', ''day''],
                  rows = [[''SHOT_ID'' \<mapsto> IntV 2, ''year'' \<mapsto> IntV 2021, ''month'' \<mapsto> IntV 3,
                           ''day'' \<mapsto> IntV 4],
                          [''SHOT_ID'' \<mapsto> IntV 5, ''year'' \<mapsto> Null, ''month'' \<mapsto> Null,
                           ''day'' \<mapsto> Null]]\<rparr>,
               ''out/2021/7.csv'' \<mapsto>
                 \<lparr>columns = [''SHOT_ID'', ''year'', ''month'', ''day''],
                  rows = [[''SHOT_ID'' \<mapsto> IntV 1, ''year'' \<mapsto> IntV 2021, ''month'' \<mapsto> IntV 3,
                           ''day'' \<mapsto> IntV 4],
                          [''SHOT_ID'' \<mapsto> IntV 3, ''year'' \<mapsto> IntV 2021, ''month'' \<mapsto> IntV 1,
                           ''day'' \<mapsto> IntV 9]]\<rparr>]\<rparr>"

section \<open>Loops that stop at the first exception\<close>

lemma map_err_Inr:
  "map_err f xs = Inr ys \<Longrightarrow> list_all2 (\<lambda>x y. f x = Inr y) xs ys"
  by (induction xs arbitrary: ys) (auto split: sum.splits)

lemma map_err_length: "map_err f xs = Inr ys \<Longrightarrow> length ys = length xs"
  by (drule map_err_Inr) (simp add: list_all2_lengthD)


section \<open>The video URL\<close>



text \<open>
  On the example tables the first shot gets the URL with \<open>2021/3/4\<close>, not \<open>2021/03/04\<close>,
  and the second, whose token is the sentinel, gets none.
\<close>

lemma example_video_urls:
  "case snd (merge_with_uuid_data (\<lambda>s. None) example_shots example_backup) of
     Inr t \<Rightarrow> map (\<lambda>r. r ''video_url'') (rows t)
               = [Some (StrV ''https://videos.nba.com/nba/pbp/media/2021/3/4/9999/5/abc_1280x720.mp4''),
                  Some Null]
   | Inl e \<Rightarrow> False"
  by code_simp



section \<open>The coercions and the join\<close>

lemma int_value_Inr: "py_int pi v = Inr i \<Longrightarrow> int_value pi v = i"
  by (simp add: int_value_def)

lemma list_all2_left_ex:
  "list_all2 P xs ys \<Longrightarrow> x \<in> set xs \<Longrightarrow> \<exists>y. P x y"
  by (induction xs ys rule: list_all2_induct) auto

lemma map2_int_value:
  "list_all2 (\<lambda>r v. py_int pi (cell_at r c) = Inr v) xs vs \<Longrightarrow>
     map2 (\<lambda>r v. r(c \<mapsto> IntV v)) xs vs = map (\<lambda>r. r(c \<mapsto> IntV (int_value pi (cell_at r c)))) xs"
  by (induction xs vs rule: list_all2_induct) (auto dest: int_value_Inr)

lemma astype_int_Inr:
  assumes "astype_int pi c t = Inr t'"
  shows "c \<in> set (columns t)"
    and "t' = t\<lparr>rows := map (\<lambda>r. r(c \<mapsto> IntV (int_value pi (cell_at r c)))) (rows t)\<rparr>"
    and "\<forall>r\<in>set (rows t). py_int pi (cell_at r c) = Inr (int_value pi (cell_at r c))"
proof -
  show c: "c \<in> set (columns t)"
  proof (rule ccontr)
    assume "c \<notin> set (columns t)"
    then have "astype_int pi c t = Inl (KeyError c)" by (simp add: astype_int_def)
    with assms show False by simp
  qed
  obtain vs where vs: "map_err (\<lambda>r. py_int pi (cell_at r c)) (rows t) = Inr vs"
    and t': "t' = t\<lparr>rows := map2 (\<lambda>r v. r(c \<mapsto> IntV v)) (rows t) vs\<rparr>"
  proof (cases "map_err (\<lambda>r. py_int pi (cell_at r c)) (rows t)")
    case (Inl e)
    with c have "astype_int pi c t = Inl e" by (simp add: astype_int_def)
    with assms show ?thesis by simp
  next
    case (Inr vs)
    with c have "astype_int pi c t = Inr (t\<lparr>rows := map2 (\<lambda>r v. r(c \<mapsto> IntV v)) (rows t) vs\<rparr>)"
      by (simp add: astype_int_def)
    with assms Inr that show ?thesis by simp
  qed
  from map_err_Inr [OF vs]
  have la: "list_all2 (\<lambda>r v. py_int pi (cell_at r c) = Inr v) (rows t) vs" .
  show "t' = t\<lparr>rows := map (\<lambda>r. r(c \<mapsto> IntV (int_value pi (cell_at r c)))) (rows t)\<rparr>"
    unfolding t' map2_int_value [OF la] ..
  show "\<forall>r\<in>set (rows t). py_int pi (cell_at r c) = Inr (int_value pi (cell_at r c))"
  proof
    fix r assume "r \<in> set (rows t)"
    from list_all2_left_ex [OF la this] obtain v where v: "py_int pi (cell_at r c) = Inr v" ..
    then show "py_int pi (cell_at r c) = Inr (int_value pi (cell_at r c))"
      by (simp add: int_value_Inr)
  qed
qed

lemma astype_str_Inr:
  assumes "astype_str c t = Inr t'"
  shows "c \<in> set (columns t)"
    and "t' = t\<lparr>rows := map (\<lambda>r. r(c \<mapsto> StrV (py_str (cell_at r c)))) (rows t)\<rparr>"
  using assms by (auto simp: astype_str_def split: if_splits)

lemma select_columns_Inr:
  assumes "select_columns cs t = Inr t'"
  shows "set cs \<subseteq> set (columns t)"
    and "t' = \<lparr>columns = cs, rows = map (\<lambda>r. r |` set cs) (rows t)\<rparr>"
  using assms by (auto simp: select_columns_def filter_empty_conv split: list.splits)

lemma rows_fold_drop_column:
  "length (rows (fold drop_column cs t)) = length (rows t)"
  by (induction cs arbitrary: t) (auto simp: drop_column_def)

lemma drop_columns_length:
  "drop_columns cs t = Inr t' \<Longrightarrow> length (rows t') = length (rows t)"
  by (auto simp: drop_columns_def rows_fold_drop_column split: list.splits)

lemma filter_key_le_1:
  "distinct (map f xs) \<Longrightarrow> length (filter (\<lambda>x. f x = k) xs) \<le> 1"
  by (induction xs) (auto simp: filter_empty_conv image_iff)

lemma merge_row_length:
  assumes "distinct (map (join_key rk) (rows r))"
  shows "length (merge_row l r lk rk a) = 1"
proof -
  have "length (filter (\<lambda>b. join_key rk b = join_key lk a) (rows r)) \<le> 1"
    using filter_key_le_1 [OF assms] .
  then show ?thesis
    by (cases "filter (\<lambda>b. join_key rk b = join_key lk a) (rows r)")
       (auto simp: merge_row_def Let_def)
qed

lemma pd_merge_left_length:
  assumes "pd_merge_left l r lk rk = Inr m" and "distinct (map (join_key rk) (rows r))"
  shows "length (rows m) = length (rows l)"
proof -
  from assms(1) have "rows m = concat (map (merge_row l r lk rk) (rows l))"
    by (auto simp: pd_merge_left_def Let_def split: if_splits)
  moreover have "length (concat (map (merge_row l r lk rk) xs)) = length xs" for xs
    by (induction xs) (simp_all add: merge_row_length [OF assms(2)])
  ultimately show ?thesis by simp
qed


lemma coerced_backup_keys:
  assumes b1: "astype_str ''game_id'' backup = Inr b1"
    and b2: "astype_int pi ''action_number'' b1 = Inr b2"
    and b3: "select_columns [''game_id'', ''action_number'', ''year'', ''month'', ''day'',
                                ''api_game_id'', ''uuid''] b2 = Inr b3"
  shows "map (join_key [''game_id'', ''action_number'']) (rows b3)
       = map (\<lambda>r. [StrV (py_str (cell_at r ''game_id'')),
                     IntV (int_value pi (cell_at r ''action_number''))]) (rows backup)"
    and "\<forall>r\<in>set (rows backup). py_int pi (cell_at r ''action_number'')
            = Inr (int_value pi (cell_at r ''action_number''))"
proof -
  note r1 = astype_str_Inr(2) [OF b1]
  note r2 = astype_int_Inr(2) [OF b2]
  note r3 = select_columns_Inr(2) [OF b3]
  show "map (join_key [''game_id'', ''action_number'']) (rows b3)
       = map (\<lambda>r. [StrV (py_str (cell_at r ''game_id'')),
                     IntV (int_value pi (cell_at r ''action_number''))]) (rows backup)"
    by (simp add: r1 r2 r3 join_key_def cell_at_def comp_def)
  from astype_int_Inr(3) [OF b2]
  show "\<forall>r\<in>set (rows backup). py_int pi (cell_at r ''action_number'')
            = Inr (int_value pi (cell_at r ''action_number''))"
    by (simp add: r1 cell_at_def)
qed

lemma distinct_map_factor:
  assumes "distinct (map h xs)" and "\<forall>x\<in>set xs. h x = k (g x)"
  shows "distinct (map g xs)"
proof -
  from assms(2) have "map h xs = map k (map g xs)" by simp
  with assms(1) have "distinct (map k (map g xs))" by simp
  then show ?thesis by (auto simp: distinct_map dest: inj_on_imageI2)
qed

text \<open>
  C2. When no two rows of the mapping table have the same join key (the game identifier
  as the join compares it, in its string form, and the action number in its integer form),
  the enriched table that \<open>merge_with_uuid_data\<close> returns has exactly as many rows as
  the shot table it was given.
\<close>

theorem merge_preserves_row_count:
  assumes "merge_with_uuid_data pi shot backup = (shot', Inr t)"
    and "distinct (map (\<lambda>r. (py_str (cell_at r ''game_id''),
                             py_int pi (cell_at r ''action_number''))) (rows backup))"
  shows "length (rows t) = length (rows shot)"
proof -
  define s0 where "s0 = (if ''year'' \<in> set (columns shot) then drop_column ''year'' shot else shot)"
  from assms(1) obtain s1 s2 b1 b2 b3 m0 m1 urls where
        s1: "astype_str ''GAME_ID'' s0 = Inr s1"
    and s2: "astype_int pi ''GAME_EVENT_ID'' s1 = Inr s2"
    and b1: "astype_str ''game_id'' backup = Inr b1"
    and b2: "astype_int pi ''action_number'' b1 = Inr b2"
    and b3: "select_columns [''game_id'', ''action_number'', ''year'', ''month'', ''day'',
                                ''api_game_id'', ''uuid''] b2 = Inr b3"
    and m0: "pd_merge_left s2 b3 [''GAME_ID'', ''GAME_EVENT_ID'']
                                   [''game_id'', ''action_number''] = Inr m0"
    and m1: "drop_columns [''game_id'', ''action_number''] m0 = Inr m1"
    and urls: "apply_rows (generate_video_url pi) m1 = Inr urls"
    and t: "t = assign_column ''video_url'' urls m1"
    unfolding merge_with_uuid_data_def Let_def s0_def [symmetric]
    by (auto split: sum.splits)
  have l0: "length (rows s0) = length (rows shot)"
    by (simp add: s0_def drop_column_def)
  have l1: "length (rows s1) = length (rows s0)"
    by (simp add: astype_str_Inr(2) [OF s1])
  have l2: "length (rows s2) = length (rows s1)"
    by (simp add: astype_int_Inr(2) [OF s2])
  have "distinct (map (\<lambda>r. [StrV (py_str (cell_at r ''game_id'')),
                     IntV (int_value pi (cell_at r ''action_number''))]) (rows backup))"
    by (rule distinct_map_factor [OF assms(2),
          where k = "\<lambda>k. (case k of [StrV s, IntV i] \<Rightarrow> (s, Inr i))"])
       (simp add: coerced_backup_keys(2) [OF b1 b2 b3])
  then have "distinct (map (join_key [''game_id'', ''action_number'']) (rows b3))"
    by (simp only: coerced_backup_keys(1) [OF b1 b2 b3])
  from pd_merge_left_length [OF m0 this] have l3: "length (rows m0) = length (rows s2)" .
  from drop_columns_length [OF m1] have l4: "length (rows m1) = length (rows m0)" .
  from urls have "map_err (generate_video_url pi) (rows m1) = Inr urls"
    by (simp add: apply_rows_def split: if_splits)
  from map_err_length [OF this] have l5: "length urls = length (rows m1)" .
  have "length (rows t) = length (rows m1)"
    by (simp add: t assign_column_def l5)
  with l0 l1 l2 l3 l4 show ?thesis by simp
qed


theorem merge_preserves_row_count_witness:
  "\<exists>t. snd (merge_with_uuid_data (\<lambda>s. None) example_shots example_backup) = Inr t
     \<and> distinct (map (\<lambda>r. (py_str (cell_at r ''game_id''),
                             py_int (\<lambda>s. None) (cell_at r ''action_number'')))
                      (rows example_backup))
     \<and> length (rows t) = length (rows example_shots)"
proof -
  have "case snd (merge_with_uuid_data (\<lambda>s. None) example_shots example_backup) of
          Inr t \<Rightarrow> True | Inl e \<Rightarrow> False"
    by code_simp
  then obtain t where t: "snd (merge_with_uuid_data (\<lambda>s. None) example_shots example_backup) = Inr t"
    by (auto split: sum.splits)
  have eq: "merge_with_uuid_data (\<lambda>s. None) example_shots example_backup
      = (fst (merge_with_uuid_data (\<lambda>s. None) example_shots example_backup), Inr t)"
    using t by (metis prod.collapse)
  have d: "distinct (map (\<lambda>r. (py_str (cell_at r ''game_id''),
                             py_int (\<lambda>s. None) (cell_at r ''action_number'')))
                      (rows example_backup))"
    by code_simp
  from merge_preserves_row_count [OF eq d] t d show ?thesis by blast
qed

section \<open>The caller's table\<close>

lemma removeAll_absent: "c \<notin> set xs \<Longrightarrow> removeAll c xs = xs"
  by (induction xs) auto

lemma cell_at_upd: "cell_at (r(a \<mapsto> v)) b = (if b = a then v else cell_at r b)"
  by (simp add: cell_at_def)

lemma cell_at_del: "b \<noteq> a \<Longrightarrow> cell_at (r(a := None)) b = cell_at r b"
  by (simp add: cell_at_def)

lemma merge_caller_table:
  assumes "snd (merge_with_uuid_data pi shot backup) = Inr t"
  shows "fst (merge_with_uuid_data pi shot backup) =
     \<lparr>columns = removeAll ''year'' (columns shot),
      rows = map (\<lambda>r. (if ''year'' \<in> set (columns shot) then r(''year'' := None) else r)
                     (''GAME_ID'' \<mapsto> StrV (py_str (cell_at r ''GAME_ID'')),
                      ''GAME_EVENT_ID'' \<mapsto> IntV (int_value pi (cell_at r ''GAME_EVENT_ID''))))
                (rows shot)\<rparr>"
    and "\<forall>r\<in>set (rows shot). py_int pi (cell_at r ''GAME_EVENT_ID'')
            = Inr (int_value pi (cell_at r ''GAME_EVENT_ID''))"
proof -
  define s0 where "s0 = (if ''year'' \<in> set (columns shot) then drop_column ''year'' shot else shot)"
  from assms obtain s1 s2 where
        s1: "astype_str ''GAME_ID'' s0 = Inr s1"
    and s2: "astype_int pi ''GAME_EVENT_ID'' s1 = Inr s2"
    and f: "fst (merge_with_uuid_data pi shot backup) = s2"
    unfolding merge_with_uuid_data_def Let_def s0_def [symmetric]
    by (auto split: sum.splits)
  note r1 = astype_str_Inr(2) [OF s1]
  note r2 = astype_int_Inr(2) [OF s2]
  have c0: "columns s0 = removeAll ''year'' (columns shot)"
    by (simp add: s0_def drop_column_def removeAll_absent)
  have r0: "rows s0 = map (\<lambda>r. if ''year'' \<in> set (columns shot) then r(''year'' := None) else r) (rows shot)"
    by (simp add: s0_def drop_column_def)
  have "columns s2 = removeAll ''year'' (columns shot)"
    by (simp add: r2 r1 c0)
  moreover have "rows s2 = map (\<lambda>r. (if ''year'' \<in> set (columns shot) then r(''year'' := None) else r)
                     (''GAME_ID'' \<mapsto> StrV (py_str (cell_at r ''GAME_ID'')),
                      ''GAME_EVENT_ID'' \<mapsto> IntV (int_value pi (cell_at r ''GAME_EVENT_ID''))))
                (rows shot)"
    by (simp add: r2 r1 r0 cell_at_def comp_def)
  ultimately show "fst (merge_with_uuid_data pi shot backup) =
     \<lparr>columns = removeAll ''year'' (columns shot),
      rows = map (\<lambda>r. (if ''year'' \<in> set (columns shot) then r(''year'' := None) else r)
                     (''GAME_ID'' \<mapsto> StrV (py_str (cell_at r ''GAME_ID'')),
                      ''GAME_EVENT_ID'' \<mapsto> IntV (int_value pi (cell_at r ''GAME_EVENT_ID''))))
                (rows shot)\<rparr>"
    by (simp add: f)
  have ce: "cell_at ((if ''year'' \<in> set (columns shot) then r(''year'' := None) else r)
                     (''GAME_ID'' \<mapsto> v)) ''GAME_EVENT_ID'' = cell_at r ''GAME_EVENT_ID''" for r v
    by (simp add: cell_at_upd cell_at_del)
  from astype_int_Inr(3) [OF s2]
  show "\<forall>r\<in>set (rows shot). py_int pi (cell_at r ''GAME_EVENT_ID'')
            = Inr (int_value pi (cell_at r ''GAME_EVENT_ID''))"
    by (simp add: r1 r0 ce)
qed

text \<open>
  C9. \<open>merge_with_uuid_data\<close> changes the shot table it is given in place.
  When the call returns, the caller's table has lost its \<open>year\<close> column if it had one,
  every GAME\_ID cell is replaced by its string form and every GAME\_EVENT\_ID cell by its
  integer form, and nothing else has changed; the table differs from the one before the
  call whenever it had a \<open>year\<close> column.
\<close>

theorem caller_table_after_merge:
  assumes "merge_with_uuid_data pi shot backup = (shot', Inr t)"
  shows "columns shot' = removeAll ''year'' (columns shot)
     \<and> length (rows shot') = length (rows shot)
     \<and> (\<forall>i<length (rows shot). \<exists>ev.
           py_int pi (cell_at (rows shot ! i) ''GAME_EVENT_ID'') = Inr ev
         \<and> rows shot' ! i =
             (if ''year'' \<in> set (columns shot) then (rows shot ! i)(''year'' := None) else rows shot ! i)
             (''GAME_ID'' \<mapsto> StrV (py_str (cell_at (rows shot ! i) ''GAME_ID'')),
              ''GAME_EVENT_ID'' \<mapsto> IntV ev))
     \<and> (''year'' \<in> set (columns shot) \<longrightarrow> shot' \<noteq> shot)"
proof -
  from assms have s: "snd (merge_with_uuid_data pi shot backup) = Inr t"
    and f: "fst (merge_with_uuid_data pi shot backup) = shot'" by simp_all
  note cf = merge_caller_table(1) [OF s, unfolded f]
  note ok = merge_caller_table(2) [OF s]
  have c: "columns shot' = removeAll ''year'' (columns shot)" by (simp add: cf)
  have l: "length (rows shot') = length (rows shot)" by (simp add: cf)
  have r: "\<exists>ev. py_int pi (cell_at (rows shot ! i) ''GAME_EVENT_ID'') = Inr ev
         \<and> rows shot' ! i =
             (if ''year'' \<in> set (columns shot) then (rows shot ! i)(''year'' := None) else rows shot ! i)
             (''GAME_ID'' \<mapsto> StrV (py_str (cell_at (rows shot ! i) ''GAME_ID'')),
              ''GAME_EVENT_ID'' \<mapsto> IntV ev)" if "i < length (rows shot)" for i
  proof -
    from that have "rows shot ! i \<in> set (rows shot)" by simp
    with ok have "py_int pi (cell_at (rows shot ! i) ''GAME_EVENT_ID'')
        = Inr (int_value pi (cell_at (rows shot ! i) ''GAME_EVENT_ID''))" by blast
    moreover have "rows shot' ! i =
             (if ''year'' \<in> set (columns shot) then (rows shot ! i)(''year'' := None) else rows shot ! i)
             (''GAME_ID'' \<mapsto> StrV (py_str (cell_at (rows shot ! i) ''GAME_ID'')),
              ''GAME_EVENT_ID'' \<mapsto> IntV (int_value pi (cell_at (rows shot ! i) ''GAME_EVENT_ID'')))"
      using that by (simp add: cf)
    ultimately show ?thesis by blast
  qed
  have d: "shot' \<noteq> shot" if "''year'' \<in> set (columns shot)"
  proof
    assume "shot' = shot"
    with c have e: "removeAll ''year'' (columns shot) = columns shot" by simp
    from that have "''year'' \<in> set (removeAll ''year'' (columns shot))"
      by (simp only: e)
    then show False by simp
  qed
  show ?thesis
  proof (intro conjI allI impI)
    show "columns shot' = removeAll ''year'' (columns shot)" by (rule c)
    show "length (rows shot') = length (rows shot)" by (rule l)
    show "\<exists>ev. py_int pi (cell_at (rows shot ! i) ''GAME_EVENT_ID'') = Inr ev
         \<and> rows shot' ! i =
             (if ''year'' \<in> set (columns shot) then (rows shot ! i)(''year'' := None) else rows shot ! i)
             (''GAME_ID'' \<mapsto> StrV (py_str (cell_at (rows shot ! i) ''GAME_ID'')),
              ''GAME_EVENT_ID'' \<mapsto> IntV ev)" if "i < length (rows shot)" for i
      using that by (rule r)
    show "shot' \<noteq> shot" if "''year'' \<in> set (columns shot)"
      using that by (rule d)
  qed
qed

theorem caller_table_after_merge_witness:
  "\<exists>shot' t. merge_with_uuid_data (\<lambda>s. None) example_shots example_backup = (shot', Inr t)
     \<and> columns shot' = removeAll ''year'' (columns example_shots)
     \<and> length (rows shot') = length (rows example_shots)
     \<and> ''year'' \<in> set (columns example_shots) \<and> shot' \<noteq> example_shots"
proof -
  have "case snd (merge_with_uuid_data (\<lambda>s. None) example_shots example_backup) of
          Inr t \<Rightarrow> True | Inl e \<Rightarrow> False"
    by code_simp
  then obtain t where t: "snd (merge_with_uuid_data (\<lambda>s. None) example_shots example_backup) = Inr t"
    by (auto split: sum.splits)
  have eq: "merge_with_uuid_data (\<lambda>s. None) example_shots example_backup
      = (fst (merge_with_uuid_data (\<lambda>s. None) example_shots example_backup), Inr t)"
    using t by (metis prod.collapse)
  have y: "''year'' \<in> set (columns example_shots)"
    by (simp add: example_shots_def)
  from caller_table_after_merge [OF eq] eq y show ?thesis by blast
qed

text \<open>
  The caller's table is not always changed: a table that has no \<open>year\<close> column, whose game
  identifiers are strings and whose event identifiers are integers, comes back equal
  (as on a second call with the same table).
\<close>

theorem caller_table_unchanged_counterexample:
  "fst (merge_with_uuid_data no_parse coerced_shots example_backup) = coerced_shots
   \<and> \<not> isl (snd (merge_with_uuid_data no_parse coerced_shots example_backup))"
proof -
  have r: "\<not> isl (snd (merge_with_uuid_data no_parse coerced_shots example_backup))"
    by code_simp
  then obtain t where "snd (merge_with_uuid_data no_parse coerced_shots example_backup) = Inr t"
    by (cases "snd (merge_with_uuid_data no_parse coerced_shots example_backup)") auto
  note cf = merge_caller_table(1) [OF this]
  have "\<lparr>columns = removeAll ''year'' (columns coerced_shots),
      rows = map (\<lambda>r. (if ''year'' \<in> set (columns coerced_shots) then r(''year'' := None) else r)
                     (''GAME_ID'' \<mapsto> StrV (py_str (cell_at r ''GAME_ID'')),
                      ''GAME_EVENT_ID'' \<mapsto> IntV (int_value no_parse (cell_at r ''GAME_EVENT_ID''))))
                (rows coerced_shots)\<rparr> = coerced_shots"
    by (simp add: coerced_shots_def cell_at_def int_value_def fun_eq_iff)
  with cf r show ?thesis by simp
qed

section \<open>Printing integers\<close>

lemma digit_char_cases:
  "d < 10 \<Longrightarrow> d = 0 \<or> d = 1 \<or> d = 2 \<or> d = 3 \<or> d = 4 \<or> d = 5 \<or> d = 6 \<or> d = 7 \<or> d = 8 \<or> d = (9::nat)"
  by arith

lemma digit_val_digit_char: "d < 10 \<Longrightarrow> digit_val (digit_char d) = d"
  by (drule digit_char_cases) (auto simp: digit_val_def digit_char_def)

lemma digit_char_in: "d < 10 \<Longrightarrow> digit_char d \<in> set ''0123456789''"
  by (drule digit_char_cases) (auto simp: digit_char_def)

lemma digits_of_chars: "set (digits_of n) \<subseteq> set ''0123456789''"
proof (induction n rule: digits_of.induct)
  case (1 n)
  show ?case
  proof (cases "n < 10")
    case True
    then show ?thesis using digit_char_in [of n] by (subst digits_of.simps) simp
  next
    case False
    have "n mod 10 < 10" by simp
    from digit_char_in [OF this] 1 [OF False] False show ?thesis
      by (subst digits_of.simps) simp
  qed
qed

lemma digits_of_nonempty: "digits_of n \<noteq> []"
  by (subst digits_of.simps) simp

lemma nat_of_digits_of: "nat_of_digits (digits_of n) = n"
proof (induction n rule: digits_of.induct)
  case (1 n)
  show ?case
  proof (cases "n < 10")
    case True
    then show ?thesis by (subst digits_of.simps) (simp add: digit_val_digit_char)
  next
    case False
    with 1 have "foldl (\<lambda>a c. 10 * a + digit_val c) 0 (digits_of (n div 10)) = n div 10" by simp
    with False show ?thesis
      by (subst digits_of.simps) (simp add: digit_val_digit_char)
  qed
qed

lemma digits_of_inj: "digits_of m = digits_of n \<Longrightarrow> m = n"
  by (metis nat_of_digits_of)

lemma digits_of_no_slash: "CHR ''/'' \<notin> set (digits_of n)"
  using digits_of_chars [of n] by auto

lemma str_int_no_slash: "CHR ''/'' \<notin> set (str_int i)"
  by (simp add: str_int_def digits_of_no_slash)

lemma str_int_nonempty: "str_int i \<noteq> []"
  by (simp add: str_int_def digits_of_nonempty)

lemma digits_of_hd: "hd (digits_of n) \<noteq> CHR ''-''"
proof -
  have "hd (digits_of n) \<in> set (digits_of n)" by (simp add: digits_of_nonempty)
  with digits_of_chars [of n] show ?thesis by auto
qed

lemma str_int_inj: "str_int i = str_int j \<Longrightarrow> i = j"
proof -
  assume e: "str_int i = str_int j"
  have neg: "str_int k = CHR ''-'' # digits_of (nat (- k))" if "k < 0" for k
    using that by (simp add: str_int_def)
  have pos: "str_int k = digits_of (nat k)" if "\<not> k < 0" for k
    using that by (simp add: str_int_def)
  show "i = j"
  proof (cases "i < 0"; cases "j < 0")
    assume a: "i < 0" "j < 0"
    with e neg have "digits_of (nat (- i)) = digits_of (nat (- j))" by simp
    from digits_of_inj [OF this] a show ?thesis by simp
  next
    assume a: "i < 0" "\<not> j < 0"
    with e neg [of i] pos [of j] have "hd (digits_of (nat j)) = CHR ''-''" by (metis list.sel(1))
    with digits_of_hd show ?thesis by blast
  next
    assume a: "\<not> i < 0" "j < 0"
    with e neg [of j] pos [of i] have "hd (digits_of (nat i)) = CHR ''-''" by (metis list.sel(1))
    with digits_of_hd show ?thesis by blast
  next
    assume a: "\<not> i < 0" "\<not> j < 0"
    with e pos have "digits_of (nat i) = digits_of (nat j)" by simp
    from digits_of_inj [OF this] a show ?thesis by simp
  qed
qed

lemma digits_of_no_leading_zero: "0 < n \<Longrightarrow> hd (digits_of n) \<noteq> CHR ''0''"
proof (induction n rule: digits_of.induct)
  case (1 n)
  show ?case
  proof (cases "n < 10")
    case True
    with 1(2) digit_val_digit_char [of n] have "digit_val (digit_char n) \<noteq> 0" by simp
    then have "digit_char n \<noteq> CHR ''0''" by (auto simp: digit_val_def)
    with True show ?thesis by (subst digits_of.simps) simp
  next
    case False
    then have "0 < n div 10" by simp
    from 1(1) [OF False this] False show ?thesis
      by (subst digits_of.simps) (simp add: digits_of_nonempty)
  qed
qed

lemma str_int_no_leading_zero: "0 < i \<Longrightarrow> hd (str_int i) \<noteq> CHR ''0''"
  by (simp add: str_int_def digits_of_no_leading_zero)

section \<open>Paths, groups and the writing loop\<close>

lemma path_join_str_int:
  "path_join a (str_int i) = a @ (if a = [] \<or> last a = CHR ''/'' then [] else ''/'') @ str_int i"
proof -
  have "hd (str_int i) \<in> set (str_int i)" by (simp add: str_int_nonempty)
  with str_int_no_slash [of i] have "hd (str_int i) \<noteq> CHR ''/''" by metis
  then show ?thesis by (simp add: path_join_def)
qed

lemma year_dir_last:
  "path_join a (str_int i) \<noteq> [] \<and> last (path_join a (str_int i)) \<noteq> CHR ''/''"
proof -
  have "last (str_int i) \<in> set (str_int i)" by (simp add: str_int_nonempty)
  with str_int_no_slash [of i] have "last (str_int i) \<noteq> CHR ''/''" by metis
  then show ?thesis by (simp add: path_join_str_int str_int_nonempty)
qed

lemma partition_path_eq:
  "partition_path base k =
     base @ (if base = [] \<or> last base = CHR ''/'' then [] else ''/'')
       @ str_int (fst k) @ CHR ''/'' # (str_int (snd k) @ ''.csv'')"
proof -
  have "hd (str_int (snd k) @ ''.csv'') = hd (str_int (snd k))"
    by (simp add: str_int_nonempty)
  moreover have "hd (str_int (snd k)) \<in> set (str_int (snd k))" by (simp add: str_int_nonempty)
  with str_int_no_slash [of "snd k"] have "hd (str_int (snd k)) \<noteq> CHR ''/''" by metis
  ultimately have "path_join (path_join base (str_int (fst k))) (str_int (snd k) @ ''.csv'')
      = path_join base (str_int (fst k)) @ ''/'' @ str_int (snd k) @ ''.csv''"
    using year_dir_last [of base "fst k"] by (simp add: path_join_def)
  then show ?thesis by (simp add: partition_path_def path_join_str_int)
qed

lemma partition_path_inj:
  assumes "partition_path base k = partition_path base k'"
  shows "k = k'"
proof -
  from assms have e: "str_int (fst k) @ CHR ''/'' # (str_int (snd k) @ ''.csv'')
      = str_int (fst k') @ CHR ''/'' # (str_int (snd k') @ ''.csv'')"
    by (simp add: partition_path_eq)
  have a: "CHR ''/'' \<notin> set (str_int (snd k) @ ''.csv'')"
    by (simp add: str_int_no_slash)
  from e have "str_int (fst k) = str_int (fst k') \<and> str_int (snd k) @ ''.csv'' = str_int (snd k') @ ''.csv''"
    by (rule append_Cons_eq_iff [OF str_int_no_slash a, THEN iffD1])
  then have "fst k = fst k'" and "snd k = snd k'"
    by (auto dest: str_int_inj)
  then show ?thesis by (simp add: prod_eq_iff)
qed


lemma select_final_ok:
  assumes "''SHOT_ID'' \<in> set (columns g)" and "''video_url'' \<in> set (columns g)"
  shows "select_columns (final_columns (columns g)) g = Inr (partition_file g)"
proof -
  have "filter (\<lambda>c. c \<notin> set (columns g)) (final_columns (columns g)) = []"
    using assms by (auto simp: final_columns_def filter_empty_conv)
  then show ?thesis by (simp add: select_columns_def partition_file_def)
qed

lemma select_final_fail:
  assumes "\<not> (''SHOT_ID'' \<in> set (columns g) \<and> ''video_url'' \<in> set (columns g))"
  shows "\<exists>c. select_columns (final_columns (columns g)) g = Inl (KeyError c)"
proof -
  have "filter (\<lambda>c. c \<notin> set (columns g)) (final_columns (columns g)) \<noteq> []"
    using assms by (auto simp: final_columns_def filter_empty_conv)
  then obtain c cs where "filter (\<lambda>c. c \<notin> set (columns g)) (final_columns (columns g)) = c # cs"
    by (cases "filter (\<lambda>c. c \<notin> set (columns g)) (final_columns (columns g))") auto
  then show ?thesis by (auto simp: select_columns_def)
qed

lemma save_groups_Cons:
  "save_groups base ((k, g) # gs) fs =
     (case select_columns (final_columns (columns g)) g of
        Inl e \<Rightarrow> (makedirs (path_join base (str_int (fst k))) fs, Some e)
      | Inr f \<Rightarrow> save_groups base gs
           (to_csv (partition_path base k) f (makedirs (path_join base (str_int (fst k))) fs)))"
proof -
  obtain y t where k: "k = (y, t)" by (cases k)
  show ?thesis
    unfolding k by (simp add: Let_def final_columns_def partition_path_def split: sum.splits)
qed

lemma upd_map_add: "m(p \<mapsto> t) ++ w = m ++ ([p \<mapsto> t] ++ w)"
  by (rule ext) (simp add: map_add_def split: option.splits)

lemma save_groups_ok:
  assumes "\<forall>(k, g)\<in>set gs. ''SHOT_ID'' \<in> set (columns g) \<and> ''video_url'' \<in> set (columns g)"
  shows "save_groups base gs fs =
     (fs\<lparr>dirs := dirs fs \<union> created_dirs base gs, files := files fs ++ written_files base gs\<rparr>, None)"
  using assms
proof (induction gs arbitrary: fs)
  case Nil
  then show ?case by simp
next
  case (Cons kg gs)
  obtain k g where kg: "kg = (k, g)" by (cases kg)
  from Cons.prems kg have g: "''SHOT_ID'' \<in> set (columns g)" "''video_url'' \<in> set (columns g)"
    and rest: "\<forall>(k, g)\<in>set gs. ''SHOT_ID'' \<in> set (columns g) \<and> ''video_url'' \<in> set (columns g)"
    by auto
  define fs1 where "fs1 = to_csv (partition_path base k) (partition_file g)
       (makedirs (path_join base (str_int (fst k))) fs)"
  have d: "dirs fs1 = dirs fs \<union> set (dir_chain (path_join base (str_int (fst k))))"
    and f: "files fs1 = (files fs)(partition_path base k \<mapsto> partition_file g)"
    by (simp_all add: fs1_def to_csv_def makedirs_def)
  have u: "fs1\<lparr>dirs := ds, files := m\<rparr> = fs\<lparr>dirs := ds, files := m\<rparr>" for ds m
    by (simp add: fs1_def to_csv_def makedirs_def)
  have "save_groups base (kg # gs) fs = save_groups base gs fs1"
    unfolding kg save_groups_Cons select_final_ok [OF g] fs1_def by simp
  also have "\<dots> = (fs1\<lparr>dirs := dirs fs1 \<union> created_dirs base gs,
                       files := files fs1 ++ written_files base gs\<rparr>, None)"
    by (rule Cons.IH [OF rest])
  also have "\<dots> = (fs\<lparr>dirs := dirs fs \<union> created_dirs base (kg # gs),
                       files := files fs ++ written_files base (kg # gs)\<rparr>, None)"
    unfolding u d f kg
    by (simp only: upd_map_add [of "files fs"] written_files.simps created_dirs.simps Un_assoc)
  finally show ?case .
qed

lemma save_groups_fail:
  assumes "\<not> (''SHOT_ID'' \<in> set (columns g) \<and> ''video_url'' \<in> set (columns g))"
  shows "\<exists>c. save_groups base ((k, g) # gs) fs
           = (makedirs (path_join base (str_int (fst k))) fs, Some (KeyError c))"
proof -
  from select_final_fail [OF assms] obtain c
    where "select_columns (final_columns (columns g)) g = Inl (KeyError c)" ..
  then show ?thesis by (simp add: save_groups_Cons)
qed

lemma written_files_other:
  "p \<notin> partition_path base ` fst ` set gs \<Longrightarrow> written_files base gs p = None"
  by (induction gs) (auto simp: map_add_def split: option.splits)

lemma written_files_lookup:
  assumes "distinct (map fst gs)" and "(k, g) \<in> set gs"
  shows "written_files base gs (partition_path base k) = Some (partition_file g)"
  using assms
proof (induction gs)
  case Nil
  then show ?case by simp
next
  case (Cons kg gs)
  obtain k' g' where kg: "kg = (k', g')" by (cases kg)
  show ?case
  proof (cases "(k, g) \<in> set gs")
    case True
    with Cons kg show ?thesis by (simp add: map_add_def)
  next
    case False
    with Cons.prems kg have e: "k' = k" "g' = g" by auto
    from Cons.prems(1) kg e have "k \<notin> fst ` set gs" by simp
    then have "partition_path base k \<notin> partition_path base ` fst ` set gs"
      by (auto dest: partition_path_inj)
    from written_files_other [OF this] kg e show ?thesis
      by (simp add: map_add_def)
  qed
qed


lemma groupby2_keys:
  "map fst (groupby2 c1 c2 t) = sort (remdups (List.map_filter (group_key c1 c2) (rows t)))"
  by (simp add: groupby2_def comp_def)

lemma groupby2_distinct: "distinct (map fst (groupby2 c1 c2 t))"
  by (simp add: groupby2_keys)

lemma groupby2_key_set:
  "fst ` set (groupby2 c1 c2 t) = {k. \<exists>r\<in>set (rows t). group_key c1 c2 r = Some k}"
proof -
  have "fst ` set (groupby2 c1 c2 t) = set (map fst (groupby2 c1 c2 t))" by simp
  also have "\<dots> = set (List.map_filter (group_key c1 c2) (rows t))"
    by (simp only: groupby2_keys set_sort set_remdups)
  also have "\<dots> = {k. \<exists>r\<in>set (rows t). group_key c1 c2 r = Some k}"
    by (force simp: map_filter_def image_iff)
  finally show ?thesis .
qed

lemma groupby2_member:
  assumes "(k, g) \<in> set (groupby2 c1 c2 t)"
  shows "g = t\<lparr>rows := filter (\<lambda>r. group_key c1 c2 r = Some k) (rows t)\<rparr>"
  using assms by (auto simp: groupby2_def)

lemma map_err_total:
  "\<forall>x\<in>set xs. f x = Inr (g x) \<Longrightarrow> map_err f xs = Inr (map g xs)"
  by (induction xs) simp_all

lemma astype_int_fixed:
  assumes "c \<in> set (columns t)" and "\<forall>r\<in>set (rows t). \<exists>i. r c = Some (IntV i)"
  shows "astype_int pi c t = Inr t"
proof -
  have v: "py_int pi (cell_at r c) = Inr (int_value pi (cell_at r c)) \<and>
           r(c \<mapsto> IntV (int_value pi (cell_at r c))) = r" if "r \<in> set (rows t)" for r
  proof -
    from assms(2) that obtain i where i: "r c = Some (IntV i)" by blast
    then have "cell_at r c = IntV i" by (simp add: cell_at_def)
    then have "py_int pi (cell_at r c) = Inr i" and "int_value pi (cell_at r c) = i"
      by (simp_all add: int_value_def)
    with i show ?thesis by (simp add: fun_upd_idem)
  qed
  then have "map_err (\<lambda>r. py_int pi (cell_at r c)) (rows t)
      = Inr (map (\<lambda>r. int_value pi (cell_at r c)) (rows t))"
    by (intro map_err_total) simp
  moreover have "map2 (\<lambda>r v. r(c \<mapsto> IntV v)) (rows t) (map (\<lambda>r. int_value pi (cell_at r c)) (rows t))
      = map (\<lambda>r. r(c \<mapsto> IntV (int_value pi (cell_at r c)))) (rows t)"
    by (simp add: zip_map2 zip_same_conv_map comp_def)
  moreover have "map (\<lambda>r. r(c \<mapsto> IntV (int_value pi (cell_at r c)))) (rows t) = rows t"
    using v by (simp add: map_idI)
  ultimately show ?thesis using assms(1) by (simp add: astype_int_def)
qed

lemma astype_int_cells:
  assumes "astype_int pi c t = Inr t'"
  shows "columns t' = columns t"
    and "\<forall>r\<in>set (rows t'). \<exists>i. r c = Some (IntV i)"
    and "length (rows t') = length (rows t)"
    and "c' \<noteq> c \<Longrightarrow> \<forall>r\<in>set (rows t). P (r c') \<Longrightarrow> \<forall>r\<in>set (rows t'). P (r c')"
  by (simp_all add: astype_int_Inr(2) [OF assms])


lemma groupby2_columns:
  "(k, g) \<in> set (groupby2 c1 c2 t) \<Longrightarrow> columns g = columns t"
  by (drule groupby2_member) simp

lemma save_after_coercions:
  assumes m1: "astype_int pi ''year_source'' merged = Inr m1"
    and m2: "astype_int pi ''team_id'' m1 = Inr m2"
  shows "save_data_by_year_and_team pi merged base fs =
     (case save_groups base (groupby2 ''year_source'' ''team_id'' m2) fs of
        (fs', Some e) \<Rightarrow> \<lparr>df_after = m2, fs_after = fs',
                           printed = [SavingInto base], raised = Some e\<rparr>
      | (fs', None) \<Rightarrow> \<lparr>df_after = m2, fs_after = fs',
                         printed = [SavingInto base,
                            SavedShots (length (rows m2))
                               (length (groupby2 ''year_source'' ''team_id'' m2))],
                         raised = None\<rparr>)"
proof -
  from astype_int_Inr(1) [OF m1] have "''year_source'' \<in> set (columns merged)" .
  moreover from astype_int_Inr(1) [OF m2] astype_int_cells(1) [OF m1]
  have "''team_id'' \<in> set (columns merged)" by simp
  ultimately show ?thesis
    by (simp add: save_data_by_year_and_team_def m1 m2 Let_def)
qed

lemma save_success:
  assumes m1: "astype_int pi ''year_source'' merged = Inr m1"
    and m2: "astype_int pi ''team_id'' m1 = Inr m2"
    and ok: "''SHOT_ID'' \<in> set (columns merged)" "''video_url'' \<in> set (columns merged)"
  shows "save_data_by_year_and_team pi merged base fs =
     \<lparr>df_after = m2,
      fs_after = fs\<lparr>dirs := dirs fs \<union> created_dirs base (groupby2 ''year_source'' ''team_id'' m2),
                    files := files fs ++ written_files base (groupby2 ''year_source'' ''team_id'' m2)\<rparr>,
      printed = [SavingInto base,
                 SavedShots (length (rows m2)) (length (groupby2 ''year_source'' ''team_id'' m2))],
      raised = None\<rparr>"
proof -
  have c: "columns m2 = columns merged"
    by (simp add: astype_int_cells(1) [OF m2] astype_int_cells(1) [OF m1])
  have "\<forall>(k, g)\<in>set (groupby2 ''year_source'' ''team_id'' m2).
          ''SHOT_ID'' \<in> set (columns g) \<and> ''video_url'' \<in> set (columns g)"
    using ok by (auto simp: groupby2_columns c)
  from save_groups_ok [OF this]
  show ?thesis by (simp add: save_after_coercions [OF m1 m2])
qed

lemma save_no_exception:
  assumes cols: "''year_source'' \<in> set (columns merged)" "''team_id'' \<in> set (columns merged)"
    and r: "raised (save_data_by_year_and_team pi merged base fs) = None"
  obtains m1 m2 where "astype_int pi ''year_source'' merged = Inr m1"
    and "astype_int pi ''team_id'' m1 = Inr m2"
    and "df_after (save_data_by_year_and_team pi merged base fs) = m2"
    and "files (fs_after (save_data_by_year_and_team pi merged base fs))
           = files fs ++ written_files base (groupby2 ''year_source'' ''team_id'' m2)"
    and "groupby2 ''year_source'' ''team_id'' m2 = [] \<or>
          (''SHOT_ID'' \<in> set (columns merged) \<and> ''video_url'' \<in> set (columns merged))"
proof (cases "astype_int pi ''year_source'' merged")
  case (Inl e)
  with cols have "raised (save_data_by_year_and_team pi merged base fs) = Some e"
    by (simp add: save_data_by_year_and_team_def)
  with r show ?thesis by simp
next
  case m1: (Inr m1)
  show ?thesis
  proof (cases "astype_int pi ''team_id'' m1")
    case (Inl e)
    with cols m1 have "raised (save_data_by_year_and_team pi merged base fs) = Some e"
      by (simp add: save_data_by_year_and_team_def)
    with r show ?thesis by simp
  next
    case m2: (Inr m2)
    have c: "columns m2 = columns merged"
      by (simp add: astype_int_cells(1) [OF m2] astype_int_cells(1) [OF m1])
    show ?thesis
    proof (cases "''SHOT_ID'' \<in> set (columns merged) \<and> ''video_url'' \<in> set (columns merged)")
      case True
      then have s: "save_data_by_year_and_team pi merged base fs =
         \<lparr>df_after = m2,
          fs_after = fs\<lparr>dirs := dirs fs \<union> created_dirs base (groupby2 ''year_source'' ''team_id'' m2),
                    files := files fs ++ written_files base (groupby2 ''year_source'' ''team_id'' m2)\<rparr>,
          printed = [SavingInto base,
                 SavedShots (length (rows m2)) (length (groupby2 ''year_source'' ''team_id'' m2))],
          raised = None\<rparr>"
        using save_success [OF m1 m2] by simp
      show ?thesis
        by (rule that [OF m1 m2]) (simp_all add: s True)
    next
      case False
      show ?thesis
      proof (cases "groupby2 ''year_source'' ''team_id'' m2")
        case Nil
        then have s: "save_data_by_year_and_team pi merged base fs =
           \<lparr>df_after = m2, fs_after = fs,
            printed = [SavingInto base, SavedShots (length (rows m2)) 0], raised = None\<rparr>"
          by (simp add: save_after_coercions [OF m1 m2])
        show ?thesis
          by (rule that [OF m1 m2]) (simp_all add: s Nil)
      next
        case (Cons kg gs)
        obtain k g where kg: "kg = (k, g)" by (cases kg)
        from Cons kg have "(k, g) \<in> set (groupby2 ''year_source'' ''team_id'' m2)" by simp
        from groupby2_columns [OF this] False c
        have "\<not> (''SHOT_ID'' \<in> set (columns g) \<and> ''video_url'' \<in> set (columns g))" by simp
        from save_groups_fail [OF this, of base k gs fs] obtain c' where
          "save_groups base ((k, g) # gs) fs
             = (makedirs (path_join base (str_int (fst k))) fs, Some (KeyError c'))" ..
        then have "raised (save_data_by_year_and_team pi merged base fs) = Some (KeyError c')"
          by (simp add: save_after_coercions [OF m1 m2] Cons kg)
        with r show ?thesis by simp
      qed
    qed
  qed
qed

section \<open>The partition files\<close>

lemma group_key_Some:
  "group_key c1 c2 r = Some (y, t) \<longleftrightarrow> r c1 = Some (IntV y) \<and> r c2 = Some (IntV t)"
  by (auto simp: group_key_def cell_at_def split: option.splits cell.splits)

lemma set_final_columns:
  "set (final_columns cs) = set cs \<union> {''SHOT_ID'', ''video_url''}"
  by (auto simp: final_columns_def)

lemma save_group_file:
  assumes cols: "''year_source'' \<in> set (columns merged)" "''team_id'' \<in> set (columns merged)"
    and r: "raised (save_data_by_year_and_team pi merged base fs) = None"
    and g: "(k, g) \<in> set (groupby2 ''year_source'' ''team_id''
                 (df_after (save_data_by_year_and_team pi merged base fs)))"
  shows "files (fs_after (save_data_by_year_and_team pi merged base fs)) (partition_path base k)
           = Some (partition_file g)"
    and "columns g = columns merged"
    and "''SHOT_ID'' \<in> set (columns merged)" and "''video_url'' \<in> set (columns merged)"
proof -
  from save_no_exception [OF cols r] obtain m1 m2 where
        m1: "astype_int pi ''year_source'' merged = Inr m1"
    and m2: "astype_int pi ''team_id'' m1 = Inr m2"
    and df: "df_after (save_data_by_year_and_team pi merged base fs) = m2"
    and fl: "files (fs_after (save_data_by_year_and_team pi merged base fs))
           = files fs ++ written_files base (groupby2 ''year_source'' ''team_id'' m2)"
    and ok: "groupby2 ''year_source'' ''team_id'' m2 = [] \<or>
          (''SHOT_ID'' \<in> set (columns merged) \<and> ''video_url'' \<in> set (columns merged))"
    by blast
  from g df have mem: "(k, g) \<in> set (groupby2 ''year_source'' ''team_id'' m2)" by simp
  with ok show "''SHOT_ID'' \<in> set (columns merged)" and "''video_url'' \<in> set (columns merged)"
    by auto
  from written_files_lookup [OF groupby2_distinct mem]
  show "files (fs_after (save_data_by_year_and_team pi merged base fs)) (partition_path base k)
           = Some (partition_file g)"
    by (simp add: fl map_add_def)
  from groupby2_columns [OF mem]
  show "columns g = columns merged"
    by (simp add: astype_int_cells(1) [OF m2] astype_int_cells(1) [OF m1])
qed

lemma save_exception_keeps_files:
  assumes "raised (save_data_by_year_and_team pi merged base fs) \<noteq> None"
  shows "files (fs_after (save_data_by_year_and_team pi merged base fs)) = files fs"
proof (cases "''year_source'' \<notin> set (columns merged) \<or> ''team_id'' \<notin> set (columns merged)")
  case True
  then show ?thesis by (auto simp: save_data_by_year_and_team_def)
next
  case cols: False
  show ?thesis
  proof (cases "astype_int pi ''year_source'' merged")
    case (Inl e)
    with cols show ?thesis by (simp add: save_data_by_year_and_team_def)
  next
    case m1: (Inr m1)
    show ?thesis
    proof (cases "astype_int pi ''team_id'' m1")
      case (Inl e)
      with cols m1 show ?thesis by (simp add: save_data_by_year_and_team_def)
    next
      case m2: (Inr m2)
      have c: "columns m2 = columns merged"
        by (simp add: astype_int_cells(1) [OF m2] astype_int_cells(1) [OF m1])
      show ?thesis
      proof (cases "''SHOT_ID'' \<in> set (columns merged) \<and> ''video_url'' \<in> set (columns merged)")
        case True
        with assms save_success [OF m1 m2, of base fs] show ?thesis by simp
      next
        case False
        show ?thesis
        proof (cases "groupby2 ''year_source'' ''team_id'' m2")
          case Nil
          with assms show ?thesis by (simp add: save_after_coercions [OF m1 m2])
        next
          case (Cons kg gs)
          obtain k g where kg: "kg = (k, g)" by (cases kg)
          from Cons kg have "(k, g) \<in> set (groupby2 ''year_source'' ''team_id'' m2)" by simp
          from groupby2_columns [OF this] False c
          have "\<not> (''SHOT_ID'' \<in> set (columns g) \<and> ''video_url'' \<in> set (columns g))" by simp
          from save_groups_fail [OF this, of base k gs fs] obtain c' where
            "save_groups base ((k, g) # gs) fs
               = (makedirs (path_join base (str_int (fst k))) fs, Some (KeyError c'))" ..
          then show ?thesis
            by (simp add: save_after_coercions [OF m1 m2] Cons kg makedirs_def)
        qed
      qed
    qed
  qed
qed

text \<open>
  C4. When the table has the source-year and team columns and the run ends without an
  exception, the file written for a group (year \<open>Y\<close>, team \<open>T\<close>) holds only rows whose
  source year is \<open>Y\<close> and whose team identifier is \<open>T\<close>: no row of another group is in it.
\<close>

theorem partition_rows_match_group:
  assumes "''year_source'' \<in> set (columns merged)" and "''team_id'' \<in> set (columns merged)"
    and "raised (save_data_by_year_and_team pi merged base fs) = None"
    and "((Y, T), g) \<in> set (groupby2 ''year_source'' ''team_id''
                 (df_after (save_data_by_year_and_team pi merged base fs)))"
  shows "\<exists>f. files (fs_after (save_data_by_year_and_team pi merged base fs))
               (path_join (path_join base (str_int Y)) (str_int T @ ''.csv'')) = Some f
     \<and> (\<forall>r\<in>set (rows f). r ''year_source'' = Some (IntV Y) \<and> r ''team_id'' = Some (IntV T))"
proof -
  note f = save_group_file(1) [OF assms]
  note c = save_group_file(2) [OF assms]
  have "r ''year_source'' = Some (IntV Y) \<and> r ''team_id'' = Some (IntV T)"
    if "r \<in> set (rows (partition_file g))" for r
  proof -
    from that obtain r0 where r0: "r0 \<in> set (rows g)"
      and r: "r = r0 |` set (final_columns (columns g))"
      by (auto simp: partition_file_def)
    from r0 groupby2_member [OF assms(4)]
    have "group_key ''year_source'' ''team_id'' r0 = Some (Y, T)" by simp
    then have "r0 ''year_source'' = Some (IntV Y)" and "r0 ''team_id'' = Some (IntV T)"
      by (simp_all add: group_key_Some)
    with assms(1,2) show ?thesis
      by (simp add: r c set_final_columns)
  qed
  with f show ?thesis by (simp add: partition_path_def)
qed

theorem partition_rows_match_group_witness:
  "''year_source'' \<in> set (columns example_enriched) \<and> ''team_id'' \<in> set (columns example_enriched)
   \<and> raised (save_data_by_year_and_team no_parse example_enriched ''out'' empty_fs) = None
   \<and> (\<exists>g. ((2021, 7), g) \<in> set (groupby2 ''year_source'' ''team_id''
                 (df_after (save_data_by_year_and_team no_parse example_enriched ''out'' empty_fs)))
     \<and> (\<exists>f. files (fs_after (save_data_by_year_and_team no_parse example_enriched ''out'' empty_fs))
               (path_join (path_join ''out'' (str_int 2021)) (str_int 7 @ ''.csv'')) = Some f
          \<and> (\<forall>r\<in>set (rows f). r ''year_source'' = Some (IntV 2021) \<and> r ''team_id'' = Some (IntV 7))))"
proof -
  have c: "''year_source'' \<in> set (columns example_enriched)" "''team_id'' \<in> set (columns example_enriched)"
    by (simp_all add: example_enriched_def)
  have r: "raised (save_data_by_year_and_team no_parse example_enriched ''out'' empty_fs) = None"
    by code_simp
  have "(2021, 7) \<in> fst ` set (groupby2 ''year_source'' ''team_id''
                 (df_after (save_data_by_year_and_team no_parse example_enriched ''out'' empty_fs)))"
    by code_simp
  then obtain g where g: "((2021, 7), g) \<in> set (groupby2 ''year_source'' ''team_id''
                 (df_after (save_data_by_year_and_team no_parse example_enriched ''out'' empty_fs)))"
    by force
  from partition_rows_match_group [OF c r g] c r g show ?thesis by blast
qed

text \<open>
  C5. In every file that \<open>save_data_by_year_and_team\<close> writes, the first column is the
  shot identifier, the second is the video URL, and the other columns of the enriched
  table follow in the order they had there.
\<close>

theorem partition_file_column_order:
  assumes "''year_source'' \<in> set (columns merged)" and "''team_id'' \<in> set (columns merged)"
    and "raised (save_data_by_year_and_team pi merged base fs) = None"
    and "((Y, T), g) \<in> set (groupby2 ''year_source'' ''team_id''
                 (df_after (save_data_by_year_and_team pi merged base fs)))"
  shows "\<exists>f. files (fs_after (save_data_by_year_and_team pi merged base fs))
               (path_join (path_join base (str_int Y)) (str_int T @ ''.csv'')) = Some f
     \<and> columns f = ''SHOT_ID'' # ''video_url''
          # filter (\<lambda>c. c \<noteq> ''SHOT_ID'' \<and> c \<noteq> ''video_url'') (columns merged)"
proof -
  note f = save_group_file(1) [OF assms]
  note c = save_group_file(2) [OF assms]
  have "columns (partition_file g) = ''SHOT_ID'' # ''video_url''
          # filter (\<lambda>c. c \<noteq> ''SHOT_ID'' \<and> c \<noteq> ''video_url'') (columns merged)"
    by (simp add: partition_file_def final_columns_def c)
  with f show ?thesis by (simp add: partition_path_def)
qed

theorem partition_file_column_order_witness:
  "''year_source'' \<in> set (columns example_enriched) \<and> ''team_id'' \<in> set (columns example_enriched)
   \<and> raised (save_data_by_year_and_team no_parse example_enriched ''out'' empty_fs) = None
   \<and> (\<exists>g. ((2021, 8), g) \<in> set (groupby2 ''year_source'' ''team_id''
                 (df_after (save_data_by_year_and_team no_parse example_enriched ''out'' empty_fs)))
     \<and> (\<exists>f. files (fs_after (save_data_by_year_and_team no_parse example_enriched ''out'' empty_fs))
               (path_join (path_join ''out'' (str_int 2021)) (str_int 8 @ ''.csv'')) = Some f
          \<and> columns f = [''SHOT_ID'', ''video_url'', ''GAME_ID'', ''year_source'', ''team_id'']))"
proof -
  have c: "''year_source'' \<in> set (columns example_enriched)" "''team_id'' \<in> set (columns example_enriched)"
    by (simp_all add: example_enriched_def)
  have r: "raised (save_data_by_year_and_team no_parse example_enriched ''out'' empty_fs) = None"
    by code_simp
  have "(2021, 8) \<in> fst ` set (groupby2 ''year_source'' ''team_id''
                 (df_after (save_data_by_year_and_team no_parse example_enriched ''out'' empty_fs)))"
    by code_simp
  then obtain g where g: "((2021, 8), g) \<in> set (groupby2 ''year_source'' ''team_id''
                 (df_after (save_data_by_year_and_team no_parse example_enriched ''out'' empty_fs)))"
    by force
  have "''SHOT_ID'' # ''video_url''
          # filter (\<lambda>c. c \<noteq> ''SHOT_ID'' \<and> c \<noteq> ''video_url'') (columns example_enriched)
        = [''SHOT_ID'', ''video_url'', ''GAME_ID'', ''year_source'', ''team_id'']"
    by (simp add: example_enriched_def)
  with partition_file_column_order [OF c r g] c r g show ?thesis by auto
qed

text \<open>
  C7. When the table lacks the source-year column or the team column,
  \<open>save_data_by_year_and_team\<close> prints the error and returns: the file system and the
  table are as they were, and no exception is raised.
\<close>

theorem missing_columns_no_write:
  assumes "''year_source'' \<notin> set (columns merged) \<or> ''team_id'' \<notin> set (columns merged)"
  shows "fs_after (save_data_by_year_and_team pi merged base fs) = fs
     \<and> ErrorMissingColumns \<in> set (printed (save_data_by_year_and_team pi merged base fs))
     \<and> raised (save_data_by_year_and_team pi merged base fs) = None
     \<and> df_after (save_data_by_year_and_team pi merged base fs) = merged"
  using assms by (auto simp: save_data_by_year_and_team_def)

theorem missing_columns_no_write_witness:
  "''year_source'' \<notin> set (columns coerced_shots)
   \<and> fs_after (save_data_by_year_and_team no_parse coerced_shots ''out'' empty_fs) = empty_fs
   \<and> ErrorMissingColumns \<in> set (printed (save_data_by_year_and_team no_parse coerced_shots ''out'' empty_fs))"
proof -
  have c: "''year_source'' \<notin> set (columns coerced_shots) \<or> ''team_id'' \<notin> set (columns coerced_shots)"
    by (simp add: coerced_shots_def)
  have y: "''year_source'' \<notin> set (columns coerced_shots)"
    by (simp add: coerced_shots_def)
  from missing_columns_no_write [OF c, of no_parse "''out''" empty_fs] y show ?thesis by blast
qed

section \<open>Running the partition writer twice\<close>

lemma map_add_twice: "(m ++ w) ++ w = m ++ (w :: 'a \<rightharpoonup> 'b)"
  by (rule ext) (simp add: map_add_def split: option.splits)

lemma makedirs_twice: "makedirs p (makedirs p fs) = makedirs p fs"
  by (simp add: makedirs_def Un_assoc)

lemma save_groups_twice:
  assumes "\<forall>(k, g)\<in>set gs. columns g = cs"
  shows "save_groups base gs (fst (save_groups base gs fs)) = save_groups base gs fs"
proof (cases "gs = [] \<or> (''SHOT_ID'' \<in> set cs \<and> ''video_url'' \<in> set cs)")
  case True
  with assms have ok: "\<forall>(k, g)\<in>set gs. ''SHOT_ID'' \<in> set (columns g) \<and> ''video_url'' \<in> set (columns g)"
    by auto
  show ?thesis
    unfolding save_groups_ok [OF ok]
    by (simp add: map_add_twice Un_assoc)
next
  case False
  then obtain kg gs' where gs: "gs = kg # gs'" by (cases gs) auto
  obtain k g where kg: "kg = (k, g)" by (cases kg)
  from assms gs kg have "columns g = cs" by simp
  with False have "\<not> (''SHOT_ID'' \<in> set (columns g) \<and> ''video_url'' \<in> set (columns g))" by simp
  from select_final_fail [OF this] obtain c
    where "select_columns (final_columns (columns g)) g = Inl (KeyError c)" ..
  then show ?thesis
    by (simp add: gs kg save_groups_Cons makedirs_twice)
qed

lemma groupby2_same_columns:
  "\<forall>(k, g)\<in>set (groupby2 c1 c2 t). columns g = columns t"
  by (auto dest: groupby2_columns)

lemma save_fixed_table:
  assumes y: "\<forall>r\<in>set (rows m). \<exists>i. r ''year_source'' = Some (IntV i)"
    and t: "\<forall>r\<in>set (rows m). \<exists>i. r ''team_id'' = Some (IntV i)"
    and c: "''year_source'' \<in> set (columns m)" "''team_id'' \<in> set (columns m)"
  shows "save_data_by_year_and_team pi m base fs =
     (case save_groups base (groupby2 ''year_source'' ''team_id'' m) fs of
        (fs', Some e) \<Rightarrow> \<lparr>df_after = m, fs_after = fs',
                           printed = [SavingInto base], raised = Some e\<rparr>
      | (fs', None) \<Rightarrow> \<lparr>df_after = m, fs_after = fs',
                         printed = [SavingInto base,
                            SavedShots (length (rows m))
                               (length (groupby2 ''year_source'' ''team_id'' m))],
                         raised = None\<rparr>)"
  by (rule save_after_coercions [OF astype_int_fixed [OF c(1) y] astype_int_fixed [OF c(2) t]])

text \<open>
  C6. Running \<open>save_data_by_year_and_team\<close> a second time, on the table and the file
  system that the first run left, gives the result of the first run again: the same
  files with the same contents (each write replaces the file), the same table, the same
  messages. The same holds for the files when the second run gets the table as it was
  before the first.
\<close>

theorem save_twice_same_files:
  "save_data_by_year_and_team pi
      (df_after (save_data_by_year_and_team pi merged base fs)) base
      (fs_after (save_data_by_year_and_team pi merged base fs))
     = save_data_by_year_and_team pi merged base fs
   \<and> fs_after (save_data_by_year_and_team pi merged base
                  (fs_after (save_data_by_year_and_team pi merged base fs)))
     = fs_after (save_data_by_year_and_team pi merged base fs)"
proof (cases "''year_source'' \<notin> set (columns merged) \<or> ''team_id'' \<notin> set (columns merged)")
  case True
  then have "save_data_by_year_and_team pi merged base fs' =
      \<lparr>df_after = merged, fs_after = fs',
       printed = [SavingInto base, ErrorMissingColumns], raised = None\<rparr>" for fs'
    by (auto simp: save_data_by_year_and_team_def)
  then show ?thesis by simp
next
  case cols: False
  show ?thesis
  proof (cases "astype_int pi ''year_source'' merged")
    case (Inl e)
    with cols have "save_data_by_year_and_team pi merged base fs' =
      \<lparr>df_after = merged, fs_after = fs', printed = [SavingInto base], raised = Some e\<rparr>" for fs'
      by (simp add: save_data_by_year_and_team_def)
    then show ?thesis by simp
  next
    case m1: (Inr m1)
    have c1: "columns m1 = columns merged" by (rule astype_int_cells(1) [OF m1])
    have y1: "\<forall>r\<in>set (rows m1). \<exists>i. r ''year_source'' = Some (IntV i)"
      by (rule astype_int_cells(2) [OF m1])
    show ?thesis
    proof (cases "astype_int pi ''team_id'' m1")
      case (Inl e)
      with cols m1 have s: "save_data_by_year_and_team pi merged base fs' =
        \<lparr>df_after = m1, fs_after = fs', printed = [SavingInto base], raised = Some e\<rparr>" for fs'
        by (simp add: save_data_by_year_and_team_def)
      from cols c1 have "''year_source'' \<in> set (columns m1)" by simp
      from astype_int_fixed [OF this y1] have "astype_int pi ''year_source'' m1 = Inr m1" .
      with cols c1 Inl have "save_data_by_year_and_team pi m1 base fs =
        \<lparr>df_after = m1, fs_after = fs, printed = [SavingInto base], raised = Some e\<rparr>"
        by (simp add: save_data_by_year_and_team_def)
      then show ?thesis by (simp add: s)
    next
      case m2: (Inr m2)
      have c2: "columns m2 = columns merged" by (simp add: astype_int_cells(1) [OF m2] c1)
      have t2: "\<forall>r\<in>set (rows m2). \<exists>i. r ''team_id'' = Some (IntV i)"
        by (rule astype_int_cells(2) [OF m2])
      have y2: "\<forall>r\<in>set (rows m2). \<exists>i. r ''year_source'' = Some (IntV i)"
        by (rule astype_int_cells(4) [OF m2 _ y1]) simp
      from cols c2 have cm: "''year_source'' \<in> set (columns m2)" "''team_id'' \<in> set (columns m2)"
        by simp_all
      define G where "G = groupby2 ''year_source'' ''team_id'' m2"
      note first = save_after_coercions [OF m1 m2, folded G_def]
      note again = save_fixed_table [OF y2 t2 cm, folded G_def]
      have tw: "save_groups base G (fst (save_groups base G fs)) = save_groups base G fs"
        unfolding G_def by (rule save_groups_twice [OF groupby2_same_columns])
      obtain fs1 eo where sg: "save_groups base G fs = (fs1, eo)" by (cases "save_groups base G fs")
      with tw have sg1: "save_groups base G fs1 = (fs1, eo)" by simp
      have a: "fs_after (save_data_by_year_and_team pi merged base fs') = fst (save_groups base G fs')"
        and b: "df_after (save_data_by_year_and_team pi merged base fs') = m2" for fs'
        by (simp_all add: first split: prod.splits option.splits)
      have "save_data_by_year_and_team pi m2 base fs1 = save_data_by_year_and_team pi merged base fs"
        by (simp add: first again sg sg1)
      moreover have "fst (save_groups base G fs1) = fs1" by (simp add: sg1)
      ultimately show ?thesis by (simp add: a b sg)
    qed
  qed
qed

theorem save_twice_same_files_witness:
  "save_data_by_year_and_team no_parse
      (df_after (save_data_by_year_and_team no_parse example_enriched ''out'' empty_fs)) ''out''
      (fs_after (save_data_by_year_and_team no_parse example_enriched ''out'' empty_fs))
     = save_data_by_year_and_team no_parse example_enriched ''out'' empty_fs
   \<and> files (fs_after (save_data_by_year_and_team no_parse example_enriched ''out'' empty_fs))
        ''out/2021/7.csv'' \<noteq> None"
proof -
  have "files (fs_after (save_data_by_year_and_team no_parse example_enriched ''out'' empty_fs))
        ''out/2021/7.csv'' \<noteq> None"
    by code_simp
  with save_twice_same_files [of no_parse example_enriched "''out''" empty_fs]
  show ?thesis by blast
qed

section \<open>The partition is complete and disjoint\<close>

lemma length_filter_disj:
  "\<forall>x\<in>set xs. \<not> (P x \<and> Q x) \<Longrightarrow>
     length (filter (\<lambda>x. P x \<or> Q x) xs) = length (filter P xs) + length (filter Q xs)"
  by (induction xs) auto

lemma sum_filter_keys:
  "distinct ks \<Longrightarrow>
     sum_list (map (\<lambda>k. length (filter (\<lambda>x. f x = Some k) xs)) ks)
       = length (filter (\<lambda>x. f x \<in> Some ` set ks) xs)"
proof (induction ks)
  case Nil
  then show ?case by simp
next
  case (Cons k ks)
  then have d: "\<forall>x\<in>set xs. \<not> (f x = Some k \<and> f x \<in> Some ` set ks)" by auto
  have "filter (\<lambda>x. f x \<in> Some ` set (k # ks)) xs
      = filter (\<lambda>x. f x = Some k \<or> f x \<in> Some ` set ks) xs"
    by (rule filter_cong) auto
  with length_filter_disj [OF d] Cons show ?case by simp
qed

lemma groupby2_sizes:
  "sum_list (map (\<lambda>kg. length (rows (snd kg))) (groupby2 c1 c2 t))
     = length (filter (\<lambda>r. group_key c1 c2 r \<noteq> None) (rows t))"
proof -
  define ks where "ks = sort (remdups (List.map_filter (group_key c1 c2) (rows t)))"
  have d: "distinct ks" by (simp add: ks_def)
  have s: "set ks = {k. \<exists>r\<in>set (rows t). group_key c1 c2 r = Some k}"
    using groupby2_key_set [of c1 c2 t] by (simp add: ks_def groupby2_keys [symmetric])
  have "sum_list (map (\<lambda>kg. length (rows (snd kg))) (groupby2 c1 c2 t))
      = sum_list (map (\<lambda>k. length (filter (\<lambda>r. group_key c1 c2 r = Some k) (rows t))) ks)"
    by (simp add: groupby2_def ks_def comp_def)
  also have "\<dots> = length (filter (\<lambda>r. group_key c1 c2 r \<in> Some ` set ks) (rows t))"
    by (rule sum_filter_keys [OF d])
  also have "filter (\<lambda>r. group_key c1 c2 r \<in> Some ` set ks) (rows t)
      = filter (\<lambda>r. group_key c1 c2 r \<noteq> None) (rows t)"
    by (rule filter_cong) (auto simp: s)
  finally show ?thesis .
qed

lemma restrict_map_id:
  assumes "dom r \<subseteq> S"
  shows "r |` S = r"
proof (rule ext)
  fix x
  show "(r |` S) x = r x"
    using assms by (cases "r x") (auto simp: restrict_map_def)
qed

lemma wf_after_astype_int:
  assumes "astype_int pi c t = Inr t'" and "\<forall>r\<in>set (rows t). dom r \<subseteq> set (columns t)"
  shows "\<forall>r\<in>set (rows t'). dom r \<subseteq> set (columns t')"
  using assms(2) astype_int_Inr(1) [OF assms(1)]
  by (auto simp: astype_int_Inr(2) [OF assms(1)])

text \<open>
  C10. For an enriched table (it has the shot identifier and the video URL column, and
  every row has cells only under the table's columns) on which the two integer coercions
  succeed, the run raises nothing, every row of the table (as coerced) is in the file of
  exactly one group, and the row counts of the written files add up to the number of rows
  of the input table.
\<close>

theorem partition_complete_and_disjoint:
  assumes ok: "''SHOT_ID'' \<in> set (columns merged)" "''video_url'' \<in> set (columns merged)"
    and m1: "astype_int pi ''year_source'' merged = Inr m1"
    and m2: "astype_int pi ''team_id'' m1 = Inr m2"
    and wf: "\<forall>r\<in>set (rows merged). dom r \<subseteq> set (columns merged)"
  shows "raised (save_data_by_year_and_team pi merged base fs) = None
     \<and> df_after (save_data_by_year_and_team pi merged base fs) = m2
     \<and> length (rows m2) = length (rows merged)
     \<and> (\<forall>r\<in>set (rows m2).
           \<exists>!k. k \<in> fst ` set (groupby2 ''year_source'' ''team_id'' m2)
              \<and> (\<exists>f. files (fs_after (save_data_by_year_and_team pi merged base fs))
                         (path_join (path_join base (str_int (fst k))) (str_int (snd k) @ ''.csv''))
                       = Some f
                     \<and> r \<in> set (rows f)))
     \<and> sum_list (map (\<lambda>k.
            case files (fs_after (save_data_by_year_and_team pi merged base fs))
                   (path_join (path_join base (str_int (fst k))) (str_int (snd k) @ ''.csv'')) of
              Some f \<Rightarrow> length (rows f) | None \<Rightarrow> 0)
          (map fst (groupby2 ''year_source'' ''team_id'' m2)))
        = length (rows merged)"
proof -
  define G where "G = groupby2 ''year_source'' ''team_id'' m2"
  define fs' where "fs' = fs_after (save_data_by_year_and_team pi merged base fs)"
  note s = save_success [OF m1 m2 ok, of base fs, folded G_def]
  have c2: "columns m2 = columns merged"
    by (simp add: astype_int_cells(1) [OF m2] astype_int_cells(1) [OF m1])
  have len: "length (rows m2) = length (rows merged)"
    by (simp add: astype_int_cells(3) [OF m2] astype_int_cells(3) [OF m1])
  have wf2: "\<forall>r\<in>set (rows m2). dom r \<subseteq> set (columns m2)"
    by (rule wf_after_astype_int [OF m2 wf_after_astype_int [OF m1 wf]])
  have t2: "\<forall>r\<in>set (rows m2). \<exists>i. r ''team_id'' = Some (IntV i)"
    by (rule astype_int_cells(2) [OF m2])
  have y2: "\<forall>r\<in>set (rows m2). \<exists>i. r ''year_source'' = Some (IntV i)"
    by (rule astype_int_cells(4) [OF m2 _ astype_int_cells(2) [OF m1]]) simp
  have key: "\<exists>k. group_key ''year_source'' ''team_id'' r = Some k" if "r \<in> set (rows m2)" for r
  proof -
    from t2 that obtain t where "r ''team_id'' = Some (IntV t)" by blast
    moreover from y2 that obtain y where "r ''year_source'' = Some (IntV y)" by blast
    ultimately have "group_key ''year_source'' ''team_id'' r = Some (y, t)"
      by (simp add: group_key_Some)
    then show ?thesis ..
  qed
  have fl: "files fs' (partition_path base k) = Some (partition_file g)" if "(k, g) \<in> set G" for k g
    using written_files_lookup [OF groupby2_distinct that [unfolded G_def], of base]
    by (simp add: fs'_def s map_add_def G_def)
  have cg: "columns g = columns m2" if "(k, g) \<in> set G" for k g
    using that by (simp add: G_def groupby2_columns)
  have rg: "rows g = filter (\<lambda>r. group_key ''year_source'' ''team_id'' r = Some k) (rows m2)"
    if "(k, g) \<in> set G" for k g
    using groupby2_member [OF that [unfolded G_def]] by simp
  have S: "set (final_columns (columns m2)) = set (columns m2)"
    using ok by (auto simp: set_final_columns c2)
  have pf: "rows (partition_file g) = rows g" if "(k, g) \<in> set G" for k g
  proof -
    have "\<forall>r\<in>set (rows g). dom r \<subseteq> set (columns m2)"
      using wf2 by (simp add: rg [OF that])
    then have "map (\<lambda>r. r |` set (final_columns (columns g))) (rows g) = rows g"
      by (simp add: cg [OF that] S restrict_map_id map_idI)
    then show ?thesis by (simp add: partition_file_def)
  qed
  have ex1: "\<exists>!k. k \<in> fst ` set G
              \<and> (\<exists>f. files fs' (partition_path base k) = Some f \<and> r \<in> set (rows f))"
    if r: "r \<in> set (rows m2)" for r
  proof -
    from key [OF r] obtain k where k: "group_key ''year_source'' ''team_id'' r = Some k" ..
    with r have "k \<in> fst ` set G"
      unfolding G_def groupby2_key_set by blast
    then obtain g where g: "(k, g) \<in> set G" by force
    have "r \<in> set (rows (partition_file g))"
      using r k by (simp add: pf [OF g] rg [OF g])
    with fl [OF g] \<open>k \<in> fst ` set G\<close>
    have a: "k \<in> fst ` set G
              \<and> (\<exists>f. files fs' (partition_path base k) = Some f \<and> r \<in> set (rows f))"
      by simp
    have b: "k' = k" if "k' \<in> fst ` set G
              \<and> (\<exists>f. files fs' (partition_path base k') = Some f \<and> r \<in> set (rows f))" for k'
    proof -
      from that obtain g' where g': "(k', g') \<in> set G" by force
      from that fl [OF g'] have "r \<in> set (rows (partition_file g'))" by auto
      then have "group_key ''year_source'' ''team_id'' r = Some k'"
        by (simp add: pf [OF g'] rg [OF g'])
      with k show ?thesis by simp
    qed
    show ?thesis
    proof (rule ex1I [of _ k])
      show "k \<in> fst ` set G
              \<and> (\<exists>f. files fs' (partition_path base k) = Some f \<and> r \<in> set (rows f))"
        by (rule a)
    next
      fix k'
      assume "k' \<in> fst ` set G
              \<and> (\<exists>f. files fs' (partition_path base k') = Some f \<and> r \<in> set (rows f))"
      then show "k' = k" by (rule b)
    qed
  qed
  have "sum_list (map (\<lambda>k. case files fs' (partition_path base k) of
              Some f \<Rightarrow> length (rows f) | None \<Rightarrow> 0) (map fst G))
      = sum_list (map (\<lambda>kg. length (rows (snd kg))) G)"
  proof -
    have "(case files fs' (partition_path base (fst kg)) of
              Some f \<Rightarrow> length (rows f) | None \<Rightarrow> 0) = length (rows (snd kg))"
      if "kg \<in> set G" for kg
    proof -
      obtain k g where kg: "kg = (k, g)" by (cases kg)
      with that have g: "(k, g) \<in> set G" by simp
      show ?thesis by (simp add: kg fl [OF g] pf [OF g])
    qed
    then show ?thesis by (simp add: comp_def cong: map_cong)
  qed
  also have "\<dots> = length (filter (\<lambda>r. group_key ''year_source'' ''team_id'' r \<noteq> None) (rows m2))"
    unfolding G_def by (rule groupby2_sizes)
  also have "filter (\<lambda>r. group_key ''year_source'' ''team_id'' r \<noteq> None) (rows m2) = rows m2"
    using key by (auto simp: filter_id_conv)
  finally have total: "sum_list (map (\<lambda>k. case files fs' (partition_path base k) of
              Some f \<Rightarrow> length (rows f) | None \<Rightarrow> 0) (map fst G)) = length (rows merged)"
    by (simp add: len)
  show ?thesis
  proof (intro conjI ballI)
    show "raised (save_data_by_year_and_team pi merged base fs) = None"
      by (simp add: s)
    show "df_after (save_data_by_year_and_team pi merged base fs) = m2"
      by (simp add: s)
    show "length (rows m2) = length (rows merged)"
      by (rule len)
  next
    fix r
    assume "r \<in> set (rows m2)"
    from ex1 [OF this]
    show "\<exists>!k. k \<in> fst ` set (groupby2 ''year_source'' ''team_id'' m2)
              \<and> (\<exists>f. files (fs_after (save_data_by_year_and_team pi merged base fs))
                         (path_join (path_join base (str_int (fst k))) (str_int (snd k) @ ''.csv''))
                       = Some f
                     \<and> r \<in> set (rows f))"
      unfolding G_def fs'_def partition_path_def .
  next
    from total
    show "sum_list (map (\<lambda>k.
            case files (fs_after (save_data_by_year_and_team pi merged base fs))
                   (path_join (path_join base (str_int (fst k))) (str_int (snd k) @ ''.csv'')) of
              Some f \<Rightarrow> length (rows f) | None \<Rightarrow> 0)
          (map fst (groupby2 ''year_source'' ''team_id'' m2)))
        = length (rows merged)"
      unfolding G_def fs'_def partition_path_def .
  qed
qed

theorem partition_complete_and_disjoint_witness:
  "''SHOT_ID'' \<in> set (columns example_enriched) \<and> ''video_url'' \<in> set (columns example_enriched)
   \<and> astype_int no_parse ''year_source'' example_enriched = Inr example_enriched
   \<and> astype_int no_parse ''team_id'' example_enriched = Inr example_enriched
   \<and> raised (save_data_by_year_and_team no_parse example_enriched ''out'' empty_fs) = None
   \<and> sum_list (map (\<lambda>k.
            case files (fs_after (save_data_by_year_and_team no_parse example_enriched ''out'' empty_fs))
                   (path_join (path_join ''out'' (str_int (fst k))) (str_int (snd k) @ ''.csv'')) of
              Some f \<Rightarrow> length (rows f) | None \<Rightarrow> 0)
          (map fst (groupby2 ''year_source'' ''team_id'' example_enriched)))
        = 3"
proof -
  have ok: "''SHOT_ID'' \<in> set (columns example_enriched)" "''video_url'' \<in> set (columns example_enriched)"
    by (simp_all add: example_enriched_def)
  have m1: "astype_int no_parse ''year_source'' example_enriched = Inr example_enriched"
    by (rule astype_int_fixed) (simp_all add: example_enriched_def)
  have m2: "astype_int no_parse ''team_id'' example_enriched = Inr example_enriched"
    by (rule astype_int_fixed) (simp_all add: example_enriched_def)
  have wf: "\<forall>r\<in>set (rows example_enriched). dom r \<subseteq> set (columns example_enriched)"
    by (simp add: example_enriched_def)
  have l: "length (rows example_enriched) = 3"
    by (simp add: example_enriched_def)
  from partition_complete_and_disjoint [OF ok m1 m2 wf, of "''out''" empty_fs] ok m1 m2 l
  show ?thesis by simp
qed

section \<open>The combiner\<close>

lemma read_all_none:
  "\<forall>p\<in>set found. files fs p = None \<Longrightarrow> read_all fs found = ([], map CouldNotRead found)"
  by (induction found) simp_all

lemma read_all_tables: "fst (read_all fs found) = List.map_filter (files fs) found"
  by (induction found) (auto simp: map_filter_def split: prod.splits option.splits)



lemma sort_code_le:
  "sort_code (IntV i) \<le> sort_code (IntV j) \<longleftrightarrow> i \<le> j"
  "sort_code (StrV s) \<le> sort_code (StrV u) \<longleftrightarrow> s \<le> u"
  "sort_code (IntV i) < sort_code Null"
  "sort_code (StrV s) < sort_code Null"
  by auto

lemma sort_code_inj: "sort_code v = sort_code w \<Longrightarrow> v = w"
  by (cases v; cases w) auto

lemma composite_key_le:
  "sort_key_of [''year'', ''month'', ''day'', ''SHOT_ID''] r
     \<le> sort_key_of [''year'', ''month'', ''day'', ''SHOT_ID''] r' \<longleftrightarrow>
   sort_code (cell_at r ''year'') < sort_code (cell_at r' ''year'')
   \<or> sort_code (cell_at r ''year'') = sort_code (cell_at r' ''year'')
     \<and> (sort_code (cell_at r ''month'') < sort_code (cell_at r' ''month'')
       \<or> sort_code (cell_at r ''month'') = sort_code (cell_at r' ''month'')
         \<and> (sort_code (cell_at r ''day'') < sort_code (cell_at r' ''day'')
           \<or> sort_code (cell_at r ''day'') = sort_code (cell_at r' ''day'')
             \<and> sort_code (cell_at r ''SHOT_ID'') \<le> sort_code (cell_at r' ''SHOT_ID'')))"
  unfolding sort_key_of_def list.map Cons_le_Cons by auto

lemma sort_values_total:
  assumes "set cs \<subseteq> set (columns t)" and "\<not> list_ex (mixed_column t) cs"
  shows "sort_values cs t = Inr (t\<lparr>rows := sort_key (sort_key_of cs) (rows t)\<rparr>)"
proof -
  from assms(1) have "filter (\<lambda>c. c \<notin> set (columns t)) cs = []"
    by (auto simp: filter_empty_conv)
  with assms(2) show ?thesis by (simp add: sort_values_def)
qed

lemma read_all_some:
  "\<exists>p\<in>set found. files fs p \<noteq> None \<Longrightarrow> fst (read_all fs found) \<noteq> []"
  by (auto simp: read_all_tables map_filter_def filter_empty_conv)

lemma combine_writes:
  assumes "base_dir \<in> dirs fs" and "\<exists>p\<in>set found. files fs p \<noteq> None"
    and "set [''year'', ''month'', ''day'', ''SHOT_ID'']
           \<subseteq> set (columns (pd_concat (fst (read_all fs found))))"
    and "\<not> list_ex (mixed_column (pd_concat (fst (read_all fs found))))
              [''year'', ''month'', ''day'', ''SHOT_ID'']"
  shows "ProcessComplete \<in> set (c_printed (combine_shot_data found fs base_dir output_file))"
proof -
  obtain df_list ms where ra: "read_all fs found = (df_list, ms)" by (cases "read_all fs found")
  from assms(2) have ne: "found \<noteq> []" by auto
  from read_all_some [OF assms(2)] ra have dn: "df_list \<noteq> []" by simp
  from sort_values_total [OF assms(3,4)] ra
  have "sort_values [''year'', ''month'', ''day'', ''SHOT_ID''] (pd_concat df_list)
      = Inr ((pd_concat df_list)\<lparr>rows := sort_key (sort_key_of [''year'', ''month'', ''day'', ''SHOT_ID''])
                 (rows (pd_concat df_list))\<rparr>)"
    by simp
  with assms(1) ne dn ra show ?thesis
    by (simp add: combine_shot_data_def)
qed

text \<open>
  C8. When the root directory exists and no CSV file is found under it, or none of the
  files found can be read, \<open>combine_shot_data\<close> returns normally with the file system
  exactly as it was (so no output file is produced); it prints that no file was found, or
  the files it could not read and that no data was loaded, and raises nothing.
\<close>

theorem combine_without_input:
  assumes "base_dir \<in> dirs fs"
    and "found = [] \<or> (\<forall>p\<in>set found. files fs p = None)"
  shows "c_fs (combine_shot_data found fs base_dir output_file) = fs
     \<and> c_raised (combine_shot_data found fs base_dir output_file) = None
     \<and> c_printed (combine_shot_data found fs base_dir output_file)
         = (if found = [] then [NoCsvFound base_dir]
            else FoundFiles (length found) # map CouldNotRead found @ [NoDataLoaded])"
proof (cases "found = []")
  case True
  with assms(1) show ?thesis by (simp add: combine_shot_data_def)
next
  case False
  with assms(2) have "read_all fs found = ([], map CouldNotRead found)"
    by (simp add: read_all_none)
  with False assms(1) show ?thesis by (simp add: combine_shot_data_def)
qed

theorem combine_without_input_witness:
  "''out'' \<in> dirs example_disk
   \<and> files example_disk ''out/notes.csv'' = None
   \<and> c_fs (combine_shot_data [''out/notes.csv''] example_disk ''out'' ''all.csv'') = example_disk
   \<and> c_raised (combine_shot_data [''out/notes.csv''] example_disk ''out'' ''all.csv'') = None
   \<and> c_printed (combine_shot_data [''out/notes.csv''] example_disk ''out'' ''all.csv'')
        = [FoundFiles 1, CouldNotRead ''out/notes.csv'', NoDataLoaded]"
proof -
  have d: "''out'' \<in> dirs example_disk" by (simp add: example_disk_def)
  have n: "\<forall>p\<in>set [''out/notes.csv'']. files example_disk p = None"
    by (simp add: example_disk_def)
  have n': "files example_disk ''out/notes.csv'' = None"
    by (simp add: example_disk_def)
  from combine_without_input [OF d disjI2, OF n, of "''all.csv''"] d n'
  show ?thesis by simp
qed



end
